theory Spec2Isabelle
  imports Complex_Main "HOL-Library.AList"
begin

section \<open>JavaScript numbers\<close>

text \<open>
  The program computes with JavaScript numbers. A finite number is modelled by the exact
  rational it denotes: rounding to the nearest double, overflow of a finite result to an
  infinity and the sign of zero are not modelled. The two infinities and NaN are separate
  values with the IEEE-754 rules of the source's operators. The value \<open>undefined\<close>, which
  a read of a missing key yields, converts to NaN in every arithmetic operation and
  comparison of the program and is represented by \<open>NaN\<close>.
\<close>

datatype jsnum = Num rat | PosInf | NegInf | NaN

fun js_neg :: "jsnum \<Rightarrow> jsnum" where
  "js_neg (Num a) = Num (- a)"
| "js_neg PosInf = NegInf"
| "js_neg NegInf = PosInf"
| "js_neg NaN = NaN"

fun js_add :: "jsnum \<Rightarrow> jsnum \<Rightarrow> jsnum" where
  "js_add (Num a) (Num b) = Num (a + b)"
| "js_add (Num a) PosInf = PosInf"
| "js_add (Num a) NegInf = NegInf"
| "js_add PosInf (Num b) = PosInf"
| "js_add PosInf PosInf = PosInf"
| "js_add PosInf NegInf = NaN"
| "js_add NegInf (Num b) = NegInf"
| "js_add NegInf NegInf = NegInf"
| "js_add NegInf PosInf = NaN"
| "js_add NaN y = NaN"
| "js_add x NaN = NaN"

definition js_sub :: "jsnum \<Rightarrow> jsnum \<Rightarrow> jsnum" where
  "js_sub x y = js_add x (js_neg y)"

text \<open>The sign of an infinity, or of a non-zero finite number, as \<open>1\<close> or \<open>-1\<close>.\<close>

fun js_inf_of_sign :: "rat \<Rightarrow> jsnum" where
  "js_inf_of_sign s = (if s = 0 then NaN else if 0 < s then PosInf else NegInf)"

fun js_mul :: "jsnum \<Rightarrow> jsnum \<Rightarrow> jsnum" where
  "js_mul (Num a) (Num b) = Num (a * b)"
| "js_mul (Num a) PosInf = js_inf_of_sign a"
| "js_mul (Num a) NegInf = js_inf_of_sign (- a)"
| "js_mul PosInf (Num b) = js_inf_of_sign b"
| "js_mul NegInf (Num b) = js_inf_of_sign (- b)"
| "js_mul PosInf PosInf = PosInf"
| "js_mul PosInf NegInf = NegInf"
| "js_mul NegInf PosInf = NegInf"
| "js_mul NegInf NegInf = PosInf"
| "js_mul NaN y = NaN"
| "js_mul x NaN = NaN"

fun js_div :: "jsnum \<Rightarrow> jsnum \<Rightarrow> jsnum" where
  "js_div (Num a) (Num b) = (if b = 0 then js_inf_of_sign a else Num (a / b))"
| "js_div (Num a) PosInf = Num 0"
| "js_div (Num a) NegInf = Num 0"
| "js_div PosInf (Num b) = (if 0 \<le> b then PosInf else NegInf)"
| "js_div NegInf (Num b) = (if 0 \<le> b then NegInf else PosInf)"
| "js_div PosInf PosInf = NaN"
| "js_div PosInf NegInf = NaN"
| "js_div NegInf PosInf = NaN"
| "js_div NegInf NegInf = NaN"
| "js_div NaN y = NaN"
| "js_div x NaN = NaN"

text \<open>\<open>x < y\<close>, \<open>x >= y\<close> and \<open>x > y\<close>: every comparison with NaN is false.\<close>

fun js_lt :: "jsnum \<Rightarrow> jsnum \<Rightarrow> bool" where
  "js_lt (Num a) (Num b) = (a < b)"
| "js_lt (Num a) PosInf = True"
| "js_lt NegInf (Num b) = True"
| "js_lt NegInf PosInf = True"
| "js_lt x y = False"

definition js_gt :: "jsnum \<Rightarrow> jsnum \<Rightarrow> bool" where
  "js_gt x y = js_lt y x"

definition js_ge :: "jsnum \<Rightarrow> jsnum \<Rightarrow> bool" where
  "js_ge x y = (x \<noteq> NaN \<and> y \<noteq> NaN \<and> \<not> js_lt x y)"

definition js_le :: "jsnum \<Rightarrow> jsnum \<Rightarrow> bool" where
  "js_le x y = js_ge y x"

text \<open>\<open>x === y\<close> on numbers: NaN is not equal to itself.\<close>

definition js_strict_eq :: "jsnum \<Rightarrow> jsnum \<Rightarrow> bool" where
  "js_strict_eq x y = (x \<noteq> NaN \<and> x = y)"

definition isNaN :: "jsnum \<Rightarrow> bool" where
  "isNaN x = (x = NaN)"

text \<open>\<open>Math.min\<close>, \<open>Math.max\<close> and \<open>Math.floor\<close>.\<close>

definition Math_min :: "jsnum \<Rightarrow> jsnum \<Rightarrow> jsnum" where
  "Math_min x y = (if x = NaN \<or> y = NaN then NaN else if js_lt y x then y else x)"

definition Math_max :: "jsnum \<Rightarrow> jsnum \<Rightarrow> jsnum" where
  "Math_max x y = (if x = NaN \<or> y = NaN then NaN else if js_lt x y then y else x)"

fun Math_floor :: "jsnum \<Rightarrow> jsnum" where
  "Math_floor (Num a) = Num (of_int \<lfloor>a\<rfloor>)"
| "Math_floor x = x"

section \<open>Strings\<close>

text \<open>
  A string is a list of characters; a character stands for one code unit below 256.
  \<open>String.prototype.trim\<close> removes white space and line terminators at both ends.
\<close>

definition is_js_space :: "char \<Rightarrow> bool" where
  "is_js_space c = (of_char c \<in> {9, 10, 11, 12, 13, 32, 160 :: nat})"

definition trim :: "string \<Rightarrow> string" where
  "trim txt = rev (dropWhile is_js_space (rev (dropWhile is_js_space txt)))"

definition is_digit :: "char \<Rightarrow> bool" where
  "is_digit c = (48 \<le> (of_char c :: nat) \<and> (of_char c :: nat) \<le> 57)"

definition is_letter :: "char \<Rightarrow> bool" where
  "is_letter c = ((97 \<le> (of_char c :: nat) \<and> (of_char c :: nat) \<le> 122) \<or>
                 (65 \<le> (of_char c :: nat) \<and> (of_char c :: nat) \<le> 90))"

definition digit_val :: "char \<Rightarrow> nat" where
  "digit_val c = (of_char c :: nat) - 48"

definition digits_val :: "string \<Rightarrow> nat" where
  "digits_val ds = foldl (\<lambda>n c. 10 * n + digit_val c) 0 ds"

text \<open>
  \<open>parseInt(s, 10)\<close>: leading white space is skipped, a sign is read, then the longest
  run of decimal digits; without a digit the result is NaN.
\<close>

definition parse_digits :: "string \<Rightarrow> jsnum" where
  "parse_digits s =
     (let ds = takeWhile is_digit s
      in if ds = [] then NaN else Num (of_nat (digits_val ds)))"

definition parseInt :: "string \<Rightarrow> jsnum" where
  "parseInt s =
     (case dropWhile is_js_space s of
        [] \<Rightarrow> NaN
      | c # cs \<Rightarrow>
          if c = CHR ''-'' then js_neg (parse_digits cs)
          else if c = CHR ''+'' then parse_digits cs
          else parse_digits (c # cs))"

text \<open>
  \<open>parseFloat(s)\<close>: leading white space is skipped, then the longest prefix that is a
  decimal literal is read: a sign, \<open>Infinity\<close> or digits with an optional fraction and an
  optional exponent. Without such a prefix the result is NaN.
\<close>

definition parse_exponent :: "string \<Rightarrow> int" where
  "parse_exponent s =
     (case s of
        [] \<Rightarrow> 0
      | e # r \<Rightarrow>
          if e = CHR ''e'' \<or> e = CHR ''E'' then
            (case r of
               [] \<Rightarrow> 0
             | c # cs \<Rightarrow>
                 if c = CHR ''-'' then
                   (if takeWhile is_digit cs = [] then 0 else - int (digits_val (takeWhile is_digit cs)))
                 else if c = CHR ''+'' then
                   (if takeWhile is_digit cs = [] then 0 else int (digits_val (takeWhile is_digit cs)))
                 else int (digits_val (takeWhile is_digit (c # cs))))
          else 0)"

definition scale10 :: "rat \<Rightarrow> int \<Rightarrow> rat" where
  "scale10 x e = (if 0 \<le> e then x * 10 ^ nat e else x / 10 ^ nat (- e))"

definition parse_decimal :: "string \<Rightarrow> jsnum" where
  "parse_decimal s =
     (if take 8 s = ''Infinity'' then PosInf
      else
        let ip = takeWhile is_digit s;
            r1 = dropWhile is_digit s;
            hasdot = (r1 \<noteq> [] \<and> hd r1 = CHR ''.'');
            fp = (if hasdot then takeWhile is_digit (tl r1) else []);
            r2 = (if hasdot then dropWhile is_digit (tl r1) else r1)
        in if ip = [] \<and> fp = [] then NaN
           else Num (scale10 (of_nat (digits_val (ip @ fp))) (parse_exponent r2 - int (length fp))))"

definition parseFloat :: "string \<Rightarrow> jsnum" where
  "parseFloat s =
     (case dropWhile is_js_space s of
        [] \<Rightarrow> NaN
      | c # cs \<Rightarrow>
          if c = CHR ''-'' then js_neg (parse_decimal cs)
          else if c = CHR ''+'' then parse_decimal cs
          else parse_decimal (c # cs))"

section \<open>Tokens and the formula scanner\<close>

text \<open>
  The token kinds of the scanner. A token is a pair of its kind and a payload; the kind
  \<open>TOKEN_FORMULA\<close>, whose payload is a list of tokens, is the constructor
  \<open>FormulaToken\<close>, and every other kind carries a string.
\<close>

datatype TokenKind =
    TOKEN_WHITESPACE | TOKEN_LINES | TOKEN_LINE | TOKEN_NAME | TOKEN_STOCK
  | TOKEN_STOCK_INFINITE | TOKEN_FLOW | TOKEN_FLOW_DIRECTION | TOKEN_FLOW_DELIMITER
  | TOKEN_PARAMS | TOKEN_WHOLE | TOKEN_DECIMAL | TOKEN_INFINITY | TOKEN_REFERENCE
  | TOKEN_OP | TOKEN_COMMENT

datatype token = SimpleToken TokenKind string | FormulaToken "token list"

datatype error =
    InvalidFormula "token list" string
  | Unreachable
  | TypeError
  | IllegalSourceStock string
  | CircularReferences "(string \<times> string list) list"
  | ConflictingValues string "token list" "token list" nat
  | IllegalStockName string
  | InvalidParameters string nat
  | UnknownFlowType string nat
  | UnusedCharBuff string
  | ParseError nat error

text \<open>
  The errors that extend \<open>DeferLineInfo\<close> (\<open>ConflictingValues\<close>, \<open>InvalidParameters\<close> and
  \<open>UnknownFlowType\<close>) carry their line number, 0 until the parser sets it; the tokens of
  the line, which they and \<open>ParseError\<close> carry for their message, are left out.
\<close>

text \<open>The regular expressions \<open>PARAM_WHOLE\<close>, \<open>PARAM_DECIMAL\<close> and \<open>OPERATIONS\<close>.\<close>

definition PARAM_WHOLE :: "string \<Rightarrow> bool" where
  "PARAM_WHOLE txt =
     (let ds = (case txt of [] \<Rightarrow> [] | c # cs \<Rightarrow> if c = CHR ''-'' then cs else c # cs)
      in ds \<noteq> [] \<and> list_all is_digit ds)"

definition PARAM_DECIMAL :: "string \<Rightarrow> bool" where
  "PARAM_DECIMAL txt =
     (let ip = takeWhile is_digit txt; r = dropWhile is_digit txt
      in ip \<noteq> [] \<and> r \<noteq> [] \<and> hd r = CHR ''.'' \<and> tl r \<noteq> [] \<and> list_all is_digit (tl r))"

definition OPERATIONS :: "char \<Rightarrow> bool" where
  "OPERATIONS c = (c = CHR ''/'' \<or> c = CHR ''+'' \<or> c = CHR ''-'' \<or> c = CHR ''*'')"

definition lexValue :: "string \<Rightarrow> token" where
  "lexValue txt0 =
     (let txt = trim txt0
      in if txt = ''inf'' then SimpleToken TOKEN_INFINITY txt
         else if PARAM_WHOLE txt then SimpleToken TOKEN_WHOLE txt
         else if PARAM_DECIMAL txt then SimpleToken TOKEN_DECIMAL txt
         else SimpleToken TOKEN_REFERENCE txt)"

text \<open>
  \<open>lexFormula\<close>: one step of the loop over the characters, on the stack \<open>groups\<close> (its
  top is the head of the list), the current list \<open>tokens\<close> and the buffer \<open>acc\<close>. A
  closing parenthesis without an opening one pops the empty stack and fails on the
  \<open>push\<close> on \<open>undefined\<close>.
\<close>

definition flush :: "token list \<Rightarrow> string \<Rightarrow> token list" where
  "flush tokens acc = (if acc \<noteq> [] then tokens @ [lexValue acc] else tokens)"

fun lexFormula_loop ::
  "string \<Rightarrow> token list list \<Rightarrow> token list \<Rightarrow> string \<Rightarrow> error + token list" where
  "lexFormula_loop [] groups tokens acc = Inr tokens"
| "lexFormula_loop (c # cs) groups tokens acc =
     (if c = CHR ''('' then lexFormula_loop cs (tokens # groups) [] acc
      else if c = CHR '')'' then
        (case groups of
           [] \<Rightarrow> Inl TypeError
         | prevTokens # rest \<Rightarrow>
             lexFormula_loop cs rest (prevTokens @ [FormulaToken (flush tokens acc)]) [])
      else if c = CHR '' '' \<or> c = CHR 0x0A then lexFormula_loop cs groups (flush tokens acc) []
      else if OPERATIONS c then
        lexFormula_loop cs groups (flush tokens acc @ [SimpleToken TOKEN_OP [c]]) []
      else lexFormula_loop cs groups tokens (acc @ [c]))"

definition lexFormula :: "string \<Rightarrow> error + token list" where
  "lexFormula txt = lexFormula_loop (trim txt @ [CHR 0x0A]) [] [] []"

section \<open>Formulas\<close>

text \<open>
  A formula holds the token list of its \<open>lexed\<close> formula token and its default. The
  state is a map from stock names to numbers.
\<close>

record Formula =
  lexed :: "token list"
  defaultValue :: jsnum

type_synonym StateMap = "string \<rightharpoonup> jsnum"

text \<open>A read \<open>state[name]\<close>: a missing key reads as \<open>undefined\<close>.\<close>

definition state_get :: "StateMap \<Rightarrow> string \<Rightarrow> jsnum" where
  "state_get state name = (case state name of None \<Rightarrow> NaN | Some v \<Rightarrow> v)"

text \<open>
  \<open>Formula.validate\<close>: the loop carries \<open>prevKind\<close>, which the source compares with
  \<open>null\<close> and with \<open>TOKEN_OP\<close> only: \<open>None\<close> is \<open>null\<close>, \<open>Some True\<close> the kind
  \<open>TOKEN_OP\<close> and \<open>Some False\<close> any other kind.
\<close>

fun is_op :: "token \<Rightarrow> bool" where
  "is_op (SimpleToken kind val) = (kind = TOKEN_OP)"
| "is_op (FormulaToken ts) = False"

fun validate_loop :: "token list \<Rightarrow> token list \<Rightarrow> bool option \<Rightarrow> error + bool option" where
  "validate_loop this [] prevKind = Inr prevKind"
| "validate_loop this (t # ts) prevKind =
     (if is_op t then
        (if prevKind = None then Inl (InvalidFormula this ''can't start with an operation'')
         else if prevKind = Some True then
           Inl (InvalidFormula this ''operation can't be preceded by an operation'')
         else validate_loop this ts (Some True))
      else if prevKind \<noteq> None \<and> prevKind \<noteq> Some True then
        Inl (InvalidFormula this ''must have an operation between values or references'')
      else validate_loop this ts (Some False))"

definition validate :: "token list \<Rightarrow> error + unit" where
  "validate tokens =
     (if length tokens = 0 then
        Inl (InvalidFormula tokens ''formula is empty. must specify a number or a reference'')
      else case validate_loop tokens tokens None of
             Inl e \<Rightarrow> Inl e
           | Inr prevKind \<Rightarrow>
               if prevKind = Some True then
                 Inl (InvalidFormula tokens ''formula cannot end with an operation'')
               else Inr ())"

text \<open>
  The constructor, by the type of its definition: a string, a number or a formula token.
  Of the numbers, the integers and positive infinity are modelled, with \<open>String(n)\<close> the
  decimal digits of \<open>n\<close> after its sign.
\<close>

datatype FormulaDefinition =
  DefString string | DefInt int | DefInfinity | DefToken "token list"

fun digits_of_nat :: "nat \<Rightarrow> string" where
  "digits_of_nat n =
     (if n < 10 then [char_of (48 + n)] else digits_of_nat (n div 10) @ [char_of (48 + n mod 10)])"

definition String_of_int :: "int \<Rightarrow> string" where
  "String_of_int i = (if i < 0 then CHR ''-'' # digits_of_nat (nat (- i)) else digits_of_nat (nat i))"

definition new_Formula :: "FormulaDefinition \<Rightarrow> jsnum \<Rightarrow> error + Formula" where
  "new_Formula definition dflt =
     (case (case definition of
              DefString txt \<Rightarrow> lexFormula txt
            | DefInfinity \<Rightarrow> lexFormula ''inf''
            | DefInt i \<Rightarrow> lexFormula (String_of_int i)
            | DefToken tokens \<Rightarrow> Inr tokens) of
        Inl e \<Rightarrow> Inl e
      | Inr tokens \<Rightarrow>
          (case validate tokens of
             Inl e \<Rightarrow> Inl e
           | Inr u \<Rightarrow> Inr \<lparr>lexed = tokens, defaultValue = dflt\<rparr>))"

text \<open>\<open>Formula.references\<close>: one pass over the tokens of the formula.\<close>

fun references_loop :: "token list \<Rightarrow> string list \<Rightarrow> string list" where
  "references_loop [] refs = refs"
| "references_loop (SimpleToken kind val # ts) refs =
     (if kind = TOKEN_REFERENCE then references_loop ts (refs @ [val])
      else references_loop ts refs)"
| "references_loop (FormulaToken sub # ts) refs = references_loop ts refs"

definition references :: "Formula \<Rightarrow> string list" where
  "references f = references_loop (lexed f) []"

text \<open>
  \<open>Formula.compute\<close>: the loop over the tokens with the accumulator \<open>acc\<close> and the
  pending operator \<open>op\<close>, both \<open>null\<close> at the start. A nested formula token is given
  to the constructor, which validates it, and is computed in the same state.
\<close>

definition apply_op :: "jsnum option \<Rightarrow> string option \<Rightarrow> jsnum \<Rightarrow> jsnum option" where
  "apply_op acc op val =
     (case acc of
        None \<Rightarrow> Some val
      | Some a \<Rightarrow>
          if op = Some ''/'' then Some (js_div a val)
          else if op = Some ''*'' then Some (js_mul a val)
          else if op = Some ''+'' then Some (js_add a val)
          else if op = Some ''-'' then Some (js_sub a val)
          else Some a)"

fun compute_loop ::
  "StateMap \<Rightarrow> token list \<Rightarrow> jsnum option \<Rightarrow> string option \<Rightarrow> error + jsnum option" where
  "compute_loop state [] acc op = Inr acc"
| "compute_loop state (SimpleToken kind valStr # ts) acc op =
     (if kind = TOKEN_OP then compute_loop state ts acc (Some valStr)
      else if kind = TOKEN_WHOLE then compute_loop state ts (apply_op acc op (parseInt valStr)) op
      else if kind = TOKEN_INFINITY then compute_loop state ts (apply_op acc op PosInf) op
      else if kind = TOKEN_DECIMAL then
        compute_loop state ts (apply_op acc op (parseFloat valStr)) op
      else if kind = TOKEN_REFERENCE then
        compute_loop state ts (apply_op acc op (state_get state valStr)) op
      else Inl Unreachable)"
| "compute_loop state (FormulaToken sub # ts) acc op =
     (case validate sub of
        Inl e \<Rightarrow> Inl e
      | Inr u \<Rightarrow>
          (case compute_loop state sub None None of
             Inl e \<Rightarrow> Inl e
           | Inr r \<Rightarrow>
               compute_loop state ts
                 (apply_op acc op (case r of None \<Rightarrow> Num 0 | Some v \<Rightarrow> v)) op))"

definition compute :: "Formula \<Rightarrow> StateMap \<Rightarrow> error + jsnum" where
  "compute f state =
     (case compute_loop state (lexed f) None None of
        Inl e \<Rightarrow> Inl e
      | Inr acc \<Rightarrow> (case acc of Some v \<Rightarrow> Inr v | None \<Rightarrow> Inr (defaultValue f)))"

text \<open>
  The references as the specification words them: the name of every reference leaf of
  the token tree, the leaves of nested groups included, in order of appearance.
\<close>

fun spec_references :: "token list \<Rightarrow> string list" where
  "spec_references [] = []"
| "spec_references (SimpleToken kind val # ts) =
     (if kind = TOKEN_REFERENCE then val # spec_references ts else spec_references ts)"
| "spec_references (FormulaToken sub # ts) = spec_references sub @ spec_references ts"

text \<open>The operator that is pending after a run of the loop of \<open>compute\<close> over some tokens.\<close>

fun pending_op :: "token list \<Rightarrow> string option \<Rightarrow> string option" where
  "pending_op [] op = op"
| "pending_op (SimpleToken kind val # ts) op =
     (if kind = TOKEN_OP then pending_op ts (Some val) else pending_op ts op)"
| "pending_op (FormulaToken sub # ts) op = pending_op ts op"

section \<open>Dependency resolver\<close>

text \<open>
  A graph is an object from node names to arrays of node names: an association list in
  the order \<open>for ... in\<close> enumerates the keys, which is the order of insertion for the
  names the scanner admits. \<open>map_of\<close> reads a key, \<open>AList.update\<close> assigns to it.

  \<open>findCycles\<close> splices the arrays of its argument \<open>inGraph\<close> in place, so the model
  threads \<open>inGraph\<close> through the loops. It returns, next to the result, the two
  argument objects as the caller finds them after the call: \<open>outGraph\<close> is only read,
  its arrays are copied into the fresh object \<open>cycles\<close>, and an assignment
  \<open>cycles[node] = []\<close> binds a new array. A read \<open>g[k].length\<close> or \<open>g[k].indexOf\<close> of
  a missing key is a \<open>TypeError\<close>.
\<close>

type_synonym Graph = "(string \<times> string list) list"

record CycleResult =
  hasCycle :: bool
  cycles :: Graph
  initialPath :: "string list"

text \<open>The loop \<open>for (const node in outGraph) cycles[node] = [...outGraph[node]]\<close>.\<close>

fun copy_graph :: "string list \<Rightarrow> Graph \<Rightarrow> Graph \<Rightarrow> error + Graph" where
  "copy_graph [] outGraph cyc = Inr cyc"
| "copy_graph (node # nodes) outGraph cyc =
     (case map_of outGraph node of
        None \<Rightarrow> Inl TypeError
      | Some edges \<Rightarrow> copy_graph nodes outGraph (AList.update node edges cyc))"

text \<open>The loop \<open>for (const edge of edges)\<close>: one occurrence of \<open>node\<close> leaves \<open>inGraph[edge]\<close>.\<close>

fun trim_edges :: "string \<Rightarrow> string list \<Rightarrow> Graph \<Rightarrow> error + Graph" where
  "trim_edges node [] inGraph = Inr inGraph"
| "trim_edges node (edge # edges) inGraph =
     (case map_of inGraph edge of
        None \<Rightarrow> Inl TypeError
      | Some sources \<Rightarrow> trim_edges node edges (AList.update edge (remove1 node sources) inGraph))"

record PassState =
  ps_inGraph :: Graph
  ps_cycles :: Graph
  ps_deps :: "string list"
  ps_changed :: bool

text \<open>The loop \<open>for (const node in cycles)\<close> of one round of the \<open>while\<close> loop.\<close>

fun findCycles_pass :: "string list \<Rightarrow> PassState \<Rightarrow> error + PassState" where
  "findCycles_pass [] s = Inr s"
| "findCycles_pass (node # nodes) s =
     (case map_of (ps_inGraph s) node of
        None \<Rightarrow> Inl TypeError
      | Some sources \<Rightarrow>
          (case map_of (ps_cycles s) node of
             None \<Rightarrow> Inl TypeError
           | Some edges \<Rightarrow>
               if length sources = 0 \<and> length edges > 0 then
                 (case trim_edges node edges (ps_inGraph s) of
                    Inl e \<Rightarrow> Inl e
                  | Inr inGraph' \<Rightarrow>
                      findCycles_pass nodes
                        \<lparr>ps_inGraph = inGraph',
                         ps_cycles = AList.update node [] (ps_cycles s),
                         ps_deps = ps_deps s @ [node],
                         ps_changed = True\<rparr>)
               else findCycles_pass nodes s))"

definition open_nodes :: "Graph \<Rightarrow> nat" where
  "open_nodes g = length (filter (\<lambda>kv. snd kv \<noteq> []) g)"

text \<open>
  The loop \<open>while (changed)\<close>. It ends because a round that sets \<open>changed\<close> has
  emptied the edge list of at least one node, and no round fills an edge list again.
\<close>

function findCycles_while :: "PassState \<Rightarrow> error + PassState" where
  "findCycles_while s =
     (case findCycles_pass (map fst (ps_cycles s)) (s\<lparr>ps_changed := False\<rparr>) of
        Inl e \<Rightarrow> Inl e
      | Inr s' \<Rightarrow> if ps_changed s' then findCycles_while s' else Inr s')"
  by pat_completeness auto
termination
proof (relation "measure (\<lambda>s. open_nodes (ps_cycles s))")
  show "wf (measure (\<lambda>s. open_nodes (ps_cycles s)))"
    by simp
next
  fix s s' :: PassState
  assume pass: "findCycles_pass (map fst (ps_cycles s)) (s\<lparr>ps_changed := False\<rparr>) = Inr s'"
    and changed: "ps_changed s'"
  have less: "open_nodes (AList.update k [] g) < open_nodes g"
    if "map_of g k = Some es" and "es \<noteq> []" for k es and g :: Graph
    using that
  proof (induction g)
    case Nil
    then show ?case by simp
  next
    case (Cons kv g)
    then show ?case
      by (cases kv) (auto simp: open_nodes_def split: if_splits)
  qed
  have mono: "open_nodes (ps_cycles t') \<le> open_nodes (ps_cycles t) \<and>
      (ps_changed t' \<longrightarrow> \<not> ps_changed t \<longrightarrow> open_nodes (ps_cycles t') < open_nodes (ps_cycles t))"
    if "findCycles_pass nodes t = Inr t'" for nodes t t'
    using that
  proof (induction nodes arbitrary: t)
    case Nil
    then show ?case by simp
  next
    case (Cons node nodes)
    from Cons.prems obtain sources edges
      where src: "map_of (ps_inGraph t) node = Some sources"
        and edg: "map_of (ps_cycles t) node = Some edges"
      by (auto split: option.splits)
    show ?case
    proof (cases "length sources = 0 \<and> length edges > 0")
      case True
      with Cons.prems src edg obtain inGraph' where
        rec: "findCycles_pass nodes
                \<lparr>ps_inGraph = inGraph', ps_cycles = AList.update node [] (ps_cycles t),
                 ps_deps = ps_deps t @ [node], ps_changed = True\<rparr> = Inr t'"
        by (auto split: sum.splits)
      from Cons.IH [OF rec]
      have "open_nodes (ps_cycles t') \<le> open_nodes (AList.update node [] (ps_cycles t))"
        by simp
      moreover have "open_nodes (AList.update node [] (ps_cycles t)) < open_nodes (ps_cycles t)"
        using less [OF edg] True by auto
      ultimately show ?thesis by simp
    next
      case False
      with Cons.prems src edg have "findCycles_pass nodes t = Inr t'"
        by (auto split: sum.splits)
      from Cons.IH [OF this] show ?thesis .
    qed
  qed
  from mono [OF pass] changed
  show "(s', s) \<in> measure (\<lambda>s. open_nodes (ps_cycles s))"
    by simp
qed

definition findCycles :: "Graph \<Rightarrow> Graph \<Rightarrow> error + (CycleResult \<times> Graph \<times> Graph)" where
  "findCycles inGraph outGraph =
     (case copy_graph (map fst outGraph) outGraph [] of
        Inl e \<Rightarrow> Inl e
      | Inr cyc \<Rightarrow>
          (case findCycles_while
                  \<lparr>ps_inGraph = inGraph, ps_cycles = cyc, ps_deps = [], ps_changed = True\<rparr> of
             Inl e \<Rightarrow> Inl e
           | Inr s \<Rightarrow>
               Inr (\<lparr>hasCycle = list_ex (\<lambda>kv. length (snd kv) > 0) (ps_cycles s),
                     cycles = ps_cycles s,
                     initialPath = rev (ps_deps s)\<rparr>,
                    ps_inGraph s, outGraph)))"

declare findCycles_while.simps [simp del]

section \<open>Stocks, rates and flows\<close>

record Stock =
  name :: string
  initial :: Formula
  maximum :: Formula
  showStock :: bool

text \<open>
  The three rate classes share the constructor of \<open>RateBase\<close>, which builds the formula
  of the rate with the default \<open>0\<close>.
\<close>

datatype RateBase = Rate Formula | Conversion Formula | Leak Formula

fun formula :: "RateBase \<Rightarrow> Formula" where
  "formula (Rate f) = f"
| "formula (Conversion f) = f"
| "formula (Leak f) = f"

definition new_Rate :: "FormulaDefinition \<Rightarrow> error + RateBase" where
  "new_Rate d = (case new_Formula d (Num 0) of Inl e \<Rightarrow> Inl e | Inr f \<Rightarrow> Inr (Rate f))"

definition new_Conversion :: "FormulaDefinition \<Rightarrow> error + RateBase" where
  "new_Conversion d = (case new_Formula d (Num 0) of Inl e \<Rightarrow> Inl e | Inr f \<Rightarrow> Inr (Conversion f))"

definition new_Leak :: "FormulaDefinition \<Rightarrow> error + RateBase" where
  "new_Leak d = (case new_Formula d (Num 0) of Inl e \<Rightarrow> Inl e | Inr f \<Rightarrow> Inr (Leak f))"

text \<open>\<open>calculate\<close> returns the pair of the amount removed and the amount added.\<close>

fun calculate ::
  "RateBase \<Rightarrow> StateMap \<Rightarrow> jsnum \<Rightarrow> jsnum \<Rightarrow> jsnum \<Rightarrow> error + (jsnum \<times> jsnum)" where
  "calculate (Rate f) state src dest capacity =
     (case compute f state of
        Inl e \<Rightarrow> Inl e
      | Inr evaluated \<Rightarrow>
          if js_gt src (Num 0) then
            (let change = (if js_ge (js_sub src evaluated) (Num 0) then evaluated else src);
                 change = Math_min capacity (Math_max (Num 0) change)
             in Inr (change, change))
          else Inr (Num 0, Num 0))"
| "calculate (Conversion f) state src dest capacity =
     (case compute f state of
        Inl e \<Rightarrow> Inl e
      | Inr evaluated \<Rightarrow>
          (let maxSrcChange =
                 (if js_strict_eq dest PosInf \<or> js_strict_eq capacity PosInf then src
                  else Math_max (Num 0) (Math_floor (js_div (js_sub capacity dest) evaluated)));
               change = Math_floor (js_mul maxSrcChange evaluated)
           in if js_strict_eq change (Num 0) then Inr (Num 0, Num 0)
              else Inr (maxSrcChange, change)))"
| "calculate (Leak f) state src dest capacity =
     (case compute f state of
        Inl e \<Rightarrow> Inl e
      | Inr evaluated \<Rightarrow>
          (let change = Math_floor (js_mul src evaluated);
               change = (if \<not> isNaN capacity then Math_min capacity change else change)
           in Inr (change, change)))"

fun validateSource :: "RateBase \<Rightarrow> Stock \<Rightarrow> error + unit" where
  "validateSource (Rate f) sourceStock = Inr ()"
| "validateSource (Conversion f) sourceStock =
     (case compute (initial sourceStock) Map.empty of
        Inl e \<Rightarrow> Inl e
      | Inr v \<Rightarrow> if js_strict_eq v PosInf then Inl (IllegalSourceStock (name sourceStock)) else Inr ())"
| "validateSource (Leak f) sourceStock =
     (case compute (initial sourceStock) Map.empty of
        Inl e \<Rightarrow> Inl e
      | Inr v \<Rightarrow> if js_strict_eq v PosInf then Inl (IllegalSourceStock (name sourceStock)) else Inr ())"

text \<open>
  A flow refers to its two stock objects. The stocks of a model are the objects of its
  list \<open>stocks\<close>, and a reference to one of them is its position in that list, so that
  a stock whose field is filled in later is seen with its new value through every flow.
\<close>

record Flow =
  source :: nat
  destination :: nat
  rate :: RateBase

record Model =
  modelName :: string
  stocks :: "Stock list"
  flows :: "Flow list"
  modelInitialPath :: "string list"

definition new_Model :: "string \<Rightarrow> Model" where
  "new_Model nm = \<lparr>modelName = nm, stocks = [], flows = [], modelInitialPath = []\<rparr>"

definition Flow_change :: "Model \<Rightarrow> Flow \<Rightarrow> StateMap \<Rightarrow> jsnum \<Rightarrow> jsnum \<Rightarrow> error + (jsnum \<times> jsnum)" where
  "Flow_change m flow state sourceState destState =
     (case compute (maximum (stocks m ! destination flow)) state of
        Inl e \<Rightarrow> Inl e
      | Inr capacity \<Rightarrow>
          (let adjustedCapacity =
                 (if \<not> js_strict_eq destState PosInf then js_sub capacity destState else capacity)
           in calculate (rate flow) state sourceState destState adjustedCapacity))"

text \<open>\<open>getStock\<close> finds the first stock of a name; its position stands for the object.\<close>

fun find_index_from :: "nat \<Rightarrow> string \<Rightarrow> Stock list \<Rightarrow> nat option" where
  "find_index_from i nm [] = None"
| "find_index_from i nm (s # ss) = (if name s = nm then Some i else find_index_from (Suc i) nm ss)"

definition getStock_ref :: "Model \<Rightarrow> string \<Rightarrow> nat option" where
  "getStock_ref m nm = find_index_from 0 nm (stocks m)"

definition getStock :: "Model \<Rightarrow> string \<Rightarrow> Stock option" where
  "getStock m nm = find (\<lambda>stock. name stock = nm) (stocks m)"

text \<open>
  \<open>Model.stock\<close> with its four arguments given, \<open>Model.infiniteStock\<close> and \<open>Model.flow\<close>;
  each returns the model with the new object and, for a stock, the reference to it.
\<close>

definition Model_stock :: "Model \<Rightarrow> string \<Rightarrow> Formula \<Rightarrow> Formula \<Rightarrow> bool \<Rightarrow> Model \<times> nat" where
  "Model_stock m nm ini mx sh =
     (m\<lparr>stocks := stocks m @ [\<lparr>name = nm, initial = ini, maximum = mx, showStock = sh\<rparr>]\<rparr>,
      length (stocks m))"

definition Model_infiniteStock :: "Model \<Rightarrow> string \<Rightarrow> error + (Model \<times> nat)" where
  "Model_infiniteStock m nm =
     (case new_Formula DefInfinity (Num 0) of
        Inl e \<Rightarrow> Inl e
      | Inr ini \<Rightarrow>
          (case new_Formula DefInfinity (Num 0) of
             Inl e \<Rightarrow> Inl e
           | Inr mx \<Rightarrow> Inr (Model_stock m nm ini mx False)))"

definition Model_flow :: "Model \<Rightarrow> nat \<Rightarrow> nat \<Rightarrow> RateBase \<Rightarrow> error + Model" where
  "Model_flow m src dst r =
     (case validateSource r (stocks m ! src) of
        Inl e \<Rightarrow> Inl e
      | Inr u \<Rightarrow> Inr (m\<lparr>flows := flows m @ [\<lparr>source = src, destination = dst, rate = r\<rparr>]\<rparr>))"

section \<open>The simulation state\<close>

text \<open>The two loops of the constructor of \<open>State\<close>.\<close>

fun init_outside_path :: "string list \<Rightarrow> Stock list \<Rightarrow> StateMap \<Rightarrow> error + StateMap" where
  "init_outside_path path [] state = Inr state"
| "init_outside_path path (stock # rest) state =
     (if name stock \<notin> set path then
        (case compute (initial stock) state of
           Inl e \<Rightarrow> Inl e
         | Inr v \<Rightarrow> init_outside_path path rest (state(name stock \<mapsto> v)))
      else init_outside_path path rest state)"

fun init_on_path :: "Model \<Rightarrow> string list \<Rightarrow> StateMap \<Rightarrow> error + StateMap" where
  "init_on_path m [] state = Inr state"
| "init_on_path m (nm # rest) state =
     (case getStock m nm of
        None \<Rightarrow> init_on_path m rest state
      | Some stock \<Rightarrow>
          (case compute (initial stock) state of
             Inl e \<Rightarrow> Inl e
           | Inr v \<Rightarrow> init_on_path m rest (state(name stock \<mapsto> v))))"

definition new_State :: "Model \<Rightarrow> error + StateMap" where
  "new_State m =
     (case init_outside_path (modelInitialPath m) (stocks m) Map.empty of
        Inl e \<Rightarrow> Inl e
      | Inr state \<Rightarrow> init_on_path m (modelInitialPath m) state)"

text \<open>
  \<open>State.advance\<close>: the first loop runs over the flows from the last to the first,
  removes from the source at once and collects the additions in \<open>deferred\<close>; the second
  loop commits them.
\<close>

fun advance_flows ::
  "Model \<Rightarrow> Flow list \<Rightarrow> StateMap \<Rightarrow> (string \<times> jsnum) list \<Rightarrow>
     error + (StateMap \<times> (string \<times> jsnum) list)" where
  "advance_flows m [] state deferred = Inr (state, deferred)"
| "advance_flows m (flow # rest) state deferred =
     (let sourceName = name (stocks m ! source flow);
          destinationName = name (stocks m ! destination flow);
          sourceState = state_get state sourceName;
          destinationState = state_get state destinationName
      in case Flow_change m flow state sourceState destinationState of
           Inl e \<Rightarrow> Inl e
         | Inr (remChange, addChange) \<Rightarrow>
             advance_flows m rest
               (state(sourceName \<mapsto> js_sub (state_get state sourceName) remChange))
               (deferred @ [(destinationName, addChange)]))"

fun apply_deferred :: "(string \<times> jsnum) list \<Rightarrow> StateMap \<Rightarrow> StateMap" where
  "apply_deferred [] state = state"
| "apply_deferred ((dest, change) # rest) state =
     apply_deferred rest (state(dest \<mapsto> js_add (state_get state dest) change))"

definition advance :: "Model \<Rightarrow> StateMap \<Rightarrow> error + StateMap" where
  "advance m state =
     (case advance_flows m (rev (flows m)) state [] of
        Inl e \<Rightarrow> Inl e
      | Inr (state', deferred) \<Rightarrow> Inr (apply_deferred deferred state'))"

section \<open>Validation and running of a model\<close>

text \<open>
  \<open>validateExistingStocks\<close> collects the references of the maximum and of the initial
  formula of every stock, then those of the rate of every flow, and fails at the first
  that names no stock.
\<close>

definition collect_refs :: "Model \<Rightarrow> (Formula \<times> string) list" where
  "collect_refs m =
     concat (map (\<lambda>stock. map (Pair (maximum stock)) (references (maximum stock)) @
                          map (Pair (initial stock)) (references (initial stock))) (stocks m)) @
     concat (map (\<lambda>flow. map (Pair (formula (rate flow))) (references (formula (rate flow))))
               (flows m))"

fun check_refs :: "string list \<Rightarrow> (Formula \<times> string) list \<Rightarrow> error + unit" where
  "check_refs stockNames [] = Inr ()"
| "check_refs stockNames ((f, ref) # rest) =
     (if ref \<notin> set stockNames then
        Inl (InvalidFormula (lexed f) (''reference to non-existent stock '' @ [CHR 0x27] @ ref @ [CHR 0x27]))
      else check_refs stockNames rest)"

definition validateExistingStocks :: "Model \<Rightarrow> error + unit" where
  "validateExistingStocks m = check_refs (map name (stocks m)) (collect_refs m)"

text \<open>The loops of \<open>validateInitialCycles\<close> that build the two graphs.\<close>

fun empty_graphs :: "Stock list \<Rightarrow> Graph \<times> Graph \<Rightarrow> Graph \<times> Graph" where
  "empty_graphs [] (inwardRefs, outwardRefs) = (inwardRefs, outwardRefs)"
| "empty_graphs (stock # rest) (inwardRefs, outwardRefs) =
     empty_graphs rest
       (AList.update (name stock) [] inwardRefs, AList.update (name stock) [] outwardRefs)"

fun add_refs :: "string \<Rightarrow> string list \<Rightarrow> Graph \<times> Graph \<Rightarrow> error + (Graph \<times> Graph)" where
  "add_refs nm [] (inwardRefs, outwardRefs) = Inr (inwardRefs, outwardRefs)"
| "add_refs nm (ref # refs) (inwardRefs, outwardRefs) =
     (case map_of outwardRefs nm of
        None \<Rightarrow> Inl TypeError
      | Some out \<Rightarrow>
          (case map_of inwardRefs ref of
             None \<Rightarrow> Inl TypeError
           | Some inw \<Rightarrow>
               add_refs nm refs
                 (AList.update ref (inw @ [nm]) inwardRefs,
                  AList.update nm (out @ [ref]) outwardRefs)))"

fun fill_graphs :: "Stock list \<Rightarrow> Graph \<times> Graph \<Rightarrow> error + (Graph \<times> Graph)" where
  "fill_graphs [] g = Inr g"
| "fill_graphs (stock # rest) g =
     (case add_refs (name stock) (references (initial stock)) g of
        Inl e \<Rightarrow> Inl e
      | Inr g' \<Rightarrow> fill_graphs rest g')"

definition build_graphs :: "Stock list \<Rightarrow> error + (Graph \<times> Graph)" where
  "build_graphs ss = fill_graphs ss (empty_graphs ss ([], []))"

definition validateInitialCycles :: "Model \<Rightarrow> error + Model" where
  "validateInitialCycles m =
     (case build_graphs (stocks m) of
        Inl e \<Rightarrow> Inl e
      | Inr (inwardRefs, outwardRefs) \<Rightarrow>
          (case findCycles inwardRefs outwardRefs of
             Inl e \<Rightarrow> Inl e
           | Inr (result, inwardRefs', outwardRefs') \<Rightarrow>
               if hasCycle result then Inl (CircularReferences (cycles result))
               else Inr (m\<lparr>modelInitialPath := initialPath result\<rparr>)))"

definition Model_validate :: "Model \<Rightarrow> error + Model" where
  "Model_validate m =
     (case validateExistingStocks m of
        Inl e \<Rightarrow> Inl e
      | Inr u \<Rightarrow> validateInitialCycles m)"

text \<open>
  \<open>Model.run\<close>: the loop that advances and takes a snapshot, \<open>rounds\<close> times. A snapshot
  is a copy of the state map, here the state map itself.
\<close>

fun run_rounds :: "Model \<Rightarrow> nat \<Rightarrow> StateMap \<Rightarrow> StateMap list \<Rightarrow> error + StateMap list" where
  "run_rounds m 0 state snapshots = Inr snapshots"
| "run_rounds m (Suc n) state snapshots =
     (case advance m state of
        Inl e \<Rightarrow> Inl e
      | Inr state' \<Rightarrow> run_rounds m n state' (snapshots @ [state']))"

definition run :: "Model \<Rightarrow> nat \<Rightarrow> error + (Model \<times> StateMap list)" where
  "run m rounds =
     (case Model_validate m of
        Inl e \<Rightarrow> Inl e
      | Inr m' \<Rightarrow>
          (case new_State m' of
             Inl e \<Rightarrow> Inl e
           | Inr state \<Rightarrow>
               (case run_rounds m' rounds state [state] of
                  Inl e \<Rightarrow> Inl e
                | Inr snapshots \<Rightarrow> Inr (m', snapshots))))"

section \<open>Predicates and examples of the properties\<close>

text \<open>
  A token list on which the loop of \<open>compute\<close> raises nothing: every leaf has one of the
  five kinds the loop knows, and every nested group passes \<open>validate\<close>, which the
  constructor runs on it when the group is computed.
\<close>

fun computable :: "token list \<Rightarrow> bool" where
  "computable [] = True"
| "computable (SimpleToken kind val # ts) =
     ((kind = TOKEN_OP \<or> kind = TOKEN_WHOLE \<or> kind = TOKEN_INFINITY \<or> kind = TOKEN_DECIMAL \<or>
       kind = TOKEN_REFERENCE) \<and> computable ts)"
| "computable (FormulaToken sub # ts) = (validate sub = Inr () \<and> computable sub \<and> computable ts)"

text \<open>
  The formulas a run evaluates: the initial formula of every stock, the rate formula of
  every flow and the maximum formula of the destination of every flow.
\<close>

definition model_computable :: "Model \<Rightarrow> bool" where
  "model_computable m =
     (list_all (\<lambda>stock. computable (lexed (initial stock))) (stocks m) \<and>
      list_all (\<lambda>flow. computable (lexed (formula (rate flow))) \<and>
                        computable (lexed (maximum (stocks m ! destination flow)))) (flows m))"

text \<open>Sequencing of calls that may raise.\<close>

definition and_then :: "error + 'a \<Rightarrow> ('a \<Rightarrow> error + 'b) \<Rightarrow> error + 'b" where
  "and_then x f = (case x of Inl e \<Rightarrow> Inl e | Inr v \<Rightarrow> f v)"


definition unbounded_formula :: Formula where
  "unbounded_formula = \<lparr>lexed = [SimpleToken TOKEN_INFINITY ''inf''], defaultValue = Num 0\<rparr>"

definition whole_formula :: "string \<Rightarrow> Formula" where
  "whole_formula digits = \<lparr>lexed = [SimpleToken TOKEN_WHOLE digits], defaultValue = Num 0\<rparr>"

definition fan_in_model :: Model where
  "fan_in_model =
     \<lparr>modelName = ''Test'',
      stocks =
        [\<lparr>name = ''a'', initial = whole_formula ''10'', maximum = unbounded_formula, showStock = True\<rparr>,
         \<lparr>name = ''b'', initial = whole_formula ''10'', maximum = unbounded_formula, showStock = True\<rparr>,
         \<lparr>name = ''c'', initial = whole_formula ''0'', maximum = unbounded_formula, showStock = True\<rparr>],
      flows =
        [\<lparr>source = 0, destination = 2, rate = Rate (whole_formula ''5'')\<rparr>,
         \<lparr>source = 1, destination = 2, rate = Rate (whole_formula ''3'')\<rparr>],
      modelInitialPath = []\<rparr>"

text \<open>
  A model of one stock \<open>a\<close> whose initial value is the formula \<open>1 + ()\<close>, with an empty
  parenthesised group.
\<close>

definition empty_group_example :: "error + Model" where
  "empty_group_example =
     and_then (new_Formula (DefString ''1 + ()'') (Num 0)) (\<lambda>ini.
     and_then (new_Formula DefInfinity (Num 0)) (\<lambda>unbounded.
       Inr (fst (Model_stock (new_Model ''Test'') ''a'' ini unbounded True))))"

definition empty_group_model :: Model where
  "empty_group_model =
     \<lparr>modelName = ''Test'',
      stocks =
        [\<lparr>name = ''a'',
          initial = \<lparr>lexed = [SimpleToken TOKEN_WHOLE ''1'', SimpleToken TOKEN_OP ''+'', FormulaToken []],
                     defaultValue = Num 0\<rparr>,
          maximum = unbounded_formula, showStock = True\<rparr>],
      flows = [],
      modelInitialPath = []\<rparr>"

text \<open>
  The comparisons of the two invariants, as JavaScript decides them: a value is not
  negative when \<open>v < 0\<close> is false, and is not above \<open>M\<close> when \<open>v > M\<close> is false. A
  value has not been raised when it is NaN, unchanged or smaller.
\<close>

definition not_negative :: "jsnum \<Rightarrow> bool" where
  "not_negative v = (\<not> js_lt v (Num 0))"

definition not_above :: "jsnum \<Rightarrow> jsnum \<Rightarrow> bool" where
  "not_above v M = (\<not> js_gt v M)"












text \<open>
  Example models, as the parser builds them. \<open>new_stock\<close> abbreviates a shown stock
  whose initial value and maximum are whole numbers or unbounded.
\<close>

definition new_stock :: "string \<Rightarrow> Formula \<Rightarrow> Formula \<Rightarrow> Stock" where
  "new_stock nm ini mx = \<lparr>name = nm, initial = ini, maximum = mx, showStock = True\<rparr>"

text \<open>\<open>a(10) > b @ Leak(2)\<close>\<close>

definition leak_double_model :: Model where
  "leak_double_model =
     \<lparr>modelName = ''Parsed'',
      stocks = [new_stock ''a'' (whole_formula ''10'') unbounded_formula,
                new_stock ''b'' (whole_formula ''0'') unbounded_formula],
      flows = [\<lparr>source = 0, destination = 1, rate = Leak (whole_formula ''2'')\<rparr>],
      modelInitialPath = []\<rparr>"

text \<open>\<open>a(10) > d(0, 5) @ 5\<close>, \<open>b(10) > d @ 5\<close>, \<open>c(10) > d @ 5\<close>\<close>

definition triple_fan_in_model :: Model where
  "triple_fan_in_model =
     \<lparr>modelName = ''Parsed'',
      stocks = [new_stock ''a'' (whole_formula ''10'') unbounded_formula,
                new_stock ''d'' (whole_formula ''0'') (whole_formula ''5''),
                new_stock ''b'' (whole_formula ''10'') unbounded_formula,
                new_stock ''c'' (whole_formula ''10'') unbounded_formula],
      flows = [\<lparr>source = 0, destination = 1, rate = Rate (whole_formula ''5'')\<rparr>,
               \<lparr>source = 2, destination = 1, rate = Rate (whole_formula ''5'')\<rparr>,
               \<lparr>source = 3, destination = 1, rate = Rate (whole_formula ''5'')\<rparr>],
      modelInitialPath = []\<rparr>"

text \<open>\<open>a(0 - 5)\<close>\<close>

definition negative_initial_model :: Model where
  "negative_initial_model =
     \<lparr>modelName = ''Parsed'',
      stocks = [new_stock ''a''
                  \<lparr>lexed = [SimpleToken TOKEN_WHOLE ''0'', SimpleToken TOKEN_OP ''-'',
                             SimpleToken TOKEN_WHOLE ''5''], defaultValue = Num 0\<rparr>
                  unbounded_formula],
      flows = [],
      modelInitialPath = []\<rparr>"

text \<open>\<open>c(5, 3)\<close>, the stock of the example file \<open>illegal_maximum.txt\<close>\<close>

definition above_maximum_model :: Model where
  "above_maximum_model =
     \<lparr>modelName = ''Parsed'',
      stocks = [new_stock ''c'' (whole_formula ''5'') (whole_formula ''3'')],
      flows = [],
      modelInitialPath = []\<rparr>"

text \<open>\<open>a(10) > b(0, 5) @ 3\<close>\<close>

definition capped_model :: Model where
  "capped_model =
     \<lparr>modelName = ''Parsed'',
      stocks = [new_stock ''a'' (whole_formula ''10'') unbounded_formula,
                new_stock ''b'' (whole_formula ''0'') (whole_formula ''5'')],
      flows = [\<lparr>source = 0, destination = 1, rate = Rate (whole_formula ''3'')\<rparr>],
      modelInitialPath = []\<rparr>"



text \<open>The edge list of a node, empty for a node that is no key of the graph.\<close>

definition edges_of :: "Graph \<Rightarrow> string \<Rightarrow> string list" where
  "edges_of g u = (case map_of g u of None \<Rightarrow> [] | Some es \<Rightarrow> es)"

section \<open>Predicates and examples of the resolver\<close>

text \<open>
  The invariant of the loops of \<open>findCycles\<close>, for the original outward graph \<open>out0\<close>:
  the keys stay, every edge list of \<open>cycles\<close> is the original one or empty, the inward
  graph mirrors \<open>cycles\<close> edge for edge, \<open>deps\<close> lists once each node whose edges were
  cut, and whoever points at a node of \<open>deps\<close> stands before it in \<open>deps\<close>.
\<close>

definition resolver_inv :: "Graph \<Rightarrow> PassState \<Rightarrow> bool" where
  "resolver_inv out0 s =
     (map fst (ps_cycles s) = map fst out0 \<and>
      set (map fst (ps_inGraph s)) = set (map fst out0) \<and>
      (\<forall>u. set (edges_of out0 u) \<subseteq> set (map fst out0)) \<and>
      (\<forall>u. edges_of (ps_cycles s) u = [] \<or> edges_of (ps_cycles s) u = edges_of out0 u) \<and>
      (\<forall>u v. count_list (edges_of (ps_cycles s) u) v =
             count_list (edges_of (ps_inGraph s) v) u) \<and>
      distinct (ps_deps s) \<and>
      set (ps_deps s) = {u. edges_of out0 u \<noteq> [] \<and> edges_of (ps_cycles s) u = []} \<and>
      (\<forall>i < length (ps_deps s). \<forall>w. ps_deps s ! i \<in> set (edges_of out0 w) \<longrightarrow>
           w \<in> set (take i (ps_deps s))))"

text \<open>
  What \<open>validateInitialCycles\<close> builds: two graphs over the same distinct keys, with
  every target a key and every edge recorded once in each graph.
\<close>

definition graph_pair :: "Graph \<Rightarrow> Graph \<Rightarrow> bool" where
  "graph_pair inG outG =
     (map fst inG = map fst outG \<and> distinct (map fst outG) \<and>
      (\<forall>u. set (edges_of outG u) \<subseteq> set (map fst outG)) \<and>
      (\<forall>u v. count_list (edges_of outG u) v = count_list (edges_of inG v) u))"

text \<open>The inward graph after the call has the keys it had and, for every node, at most the entries it had.\<close>

definition shrunk :: "Graph \<Rightarrow> Graph \<Rightarrow> bool" where
  "shrunk inG' inG =
     (map fst inG' = map fst inG \<and>
      (\<forall>v w. count_list (edges_of inG' v) w \<le> count_list (edges_of inG v) w))"

text \<open>Stocks for the resolver: \<open>a(b)\<close> and \<open>b\<close>; \<open>a(b)\<close>, \<open>b(c)\<close> and \<open>c\<close>; \<open>a(a)\<close>.\<close>

definition reference_formula :: "string \<Rightarrow> Formula" where
  "reference_formula nm = \<lparr>lexed = [SimpleToken TOKEN_REFERENCE nm], defaultValue = Num 0\<rparr>"

definition ab_stocks :: "Stock list" where
  "ab_stocks = [new_stock ''a'' (reference_formula ''b'') unbounded_formula,
                new_stock ''b'' (whole_formula ''0'') unbounded_formula]"

definition chain_stocks :: "Stock list" where
  "chain_stocks = [new_stock ''a'' (reference_formula ''b'') unbounded_formula,
                   new_stock ''b'' (reference_formula ''c'') unbounded_formula,
                   new_stock ''c'' (whole_formula ''0'') unbounded_formula]"

definition loop_stocks :: "Stock list" where
  "loop_stocks = [new_stock ''a'' (reference_formula ''a'') unbounded_formula]"

text \<open>A rank that falls along every edge of the example graphs.\<close>

definition rank_abc :: "string \<Rightarrow> nat" where
  "rank_abc n = (if n = ''a'' then 2 else if n = ''b'' then 1 else 0)"

text \<open>The linear graph of the tests: \<open>a\<close> points at \<open>b\<close>, and \<open>b\<close> at \<open>c\<close>.\<close>

definition linear_inGraph :: Graph where
  "linear_inGraph = [(''a'', []), (''b'', [''a'']), (''c'', [''b''])]"

definition linear_outGraph :: Graph where
  "linear_outGraph = [(''a'', [''b'']), (''b'', [''c'']), (''c'', [])]"

section \<open>The scanner of lines\<close>

text \<open>
  The tokens of a line: a stock token and a flow token carry a name and the formula
  tokens of their parameters; the markers and the comments carry a string.
\<close>

datatype Token =
    StockToken TokenKind string "token list list"
  | FlowToken string "token list list"
  | PlainToken TokenKind string

type_synonym LineToken = "nat \<times> Token list"

definition startsWith :: "string \<Rightarrow> char \<Rightarrow> bool" where
  "startsWith txt c = (txt \<noteq> [] \<and> hd txt = c)"

definition endsWith :: "string \<Rightarrow> char \<Rightarrow> bool" where
  "endsWith txt c = (txt \<noteq> [] \<and> last txt = c)"

text \<open>\<open>txt.slice(1, -1)\<close> and \<open>txt.split(',')\<close>.\<close>

definition slice_inner :: "string \<Rightarrow> string" where
  "slice_inner txt = butlast (tl txt)"

fun split_commas :: "string \<Rightarrow> string \<Rightarrow> string list" where
  "split_commas [] piece = [piece]"
| "split_commas (c # cs) piece =
     (if c = CHR '','' then piece # split_commas cs [] else split_commas cs (piece @ [c]))"

fun lexFormulas :: "string list \<Rightarrow> error + token list list" where
  "lexFormulas [] = Inr []"
| "lexFormulas (x # xs) =
     (case lexFormula x of
        Inl e \<Rightarrow> Inl e
      | Inr f \<Rightarrow> (case lexFormulas xs of Inl e \<Rightarrow> Inl e | Inr fs \<Rightarrow> Inr (f # fs)))"

definition lexParameters :: "string \<Rightarrow> error + token list list" where
  "lexParameters txt =
     (if txt = [] then Inr []
      else if startsWith txt CHR ''('' \<and> endsWith txt CHR '')'' then
        lexFormulas (split_commas (slice_inner txt) [])
      else Inl (InvalidParameters txt 0))"

text \<open>
  The match of \<open>LEGAL_STOCK_NAME\<close> at the start of a text: a letter and the longest run
  of letters, digits and underscores after it.
\<close>

definition is_name_char :: "char \<Rightarrow> bool" where
  "is_name_char c = (is_letter c \<or> is_digit c \<or> c = CHR ''_'')"

definition LEGAL_STOCK_NAME :: "string \<Rightarrow> string option" where
  "LEGAL_STOCK_NAME txt =
     (case txt of
        [] \<Rightarrow> None
      | c # cs \<Rightarrow> if is_letter c then Some (c # takeWhile is_name_char cs) else None)"

definition lexCaller :: "string \<Rightarrow> error + (string \<times> token list list)" where
  "lexCaller txt0 =
     (let txt = trim txt0
      in case LEGAL_STOCK_NAME txt of
           None \<Rightarrow> Inl (IllegalStockName txt)
         | Some nm \<Rightarrow>
             (let rest = drop (length nm) txt
              in if rest \<noteq> [] \<and> \<not> (startsWith rest CHR ''('' \<and> endsWith rest CHR '')'') then
                   Inl (IllegalStockName txt)
                 else case lexParameters rest of
                        Inl e \<Rightarrow> Inl e
                      | Inr params \<Rightarrow> Inr (nm, params)))"

definition lexStock :: "string \<Rightarrow> error + Token" where
  "lexStock txt0 =
     (let txt = trim txt0
      in if startsWith txt CHR ''['' \<and> endsWith txt CHR '']'' then
           Inr (StockToken TOKEN_STOCK_INFINITE (slice_inner txt) [])
         else case lexCaller txt of
                Inl e \<Rightarrow> Inl e
              | Inr (nm, params) \<Rightarrow> Inr (StockToken TOKEN_STOCK nm params))"

definition lexFlow :: "string \<Rightarrow> error + Token" where
  "lexFlow txt0 =
     (let txt = trim txt0
      in case LEGAL_STOCK_NAME txt of
           None \<Rightarrow>
             (case lexParameters (CHR ''('' # txt @ [CHR '')'']) of
                Inl e \<Rightarrow> Inl e
              | Inr params \<Rightarrow> Inr (FlowToken [] params))
         | Some nm \<Rightarrow>
             if startsWith (drop (length nm) txt) CHR ''('' \<and> endsWith txt CHR '')'' then
               (case lexCaller txt of
                  Inl e \<Rightarrow> Inl e
                | Inr (nm', params) \<Rightarrow> Inr (FlowToken nm' params))
             else
               (case lexParameters (CHR ''('' # txt @ [CHR '')'']) of
                  Inl e \<Rightarrow> Inl e
                | Inr params \<Rightarrow> Inr (FlowToken [] params)))"

text \<open>
  \<open>lex\<close>: the state of the loop over the characters and one step of it. The buffer
  \<open>charBuff\<close> starts with a blank; \<open>parsing\<close> is one of \<open>TOKEN_STOCK\<close>, \<open>TOKEN_FLOW\<close> and
  \<open>TOKEN_COMMENT\<close>. The step ends with the part of the loop body below the chain of
  modes, \<open>lex_tail\<close>, unless the source leaves the body with \<open>continue\<close>.
\<close>

record LexState =
  lx_tokens :: "LineToken list"
  lx_line :: "Token list"
  lx_charBuff :: string
  lx_parsing :: TokenKind
  lx_lineNum :: nat

definition lex_tail :: "char \<Rightarrow> LexState \<Rightarrow> error + LexState" where
  "lex_tail c s =
     (if c = CHR 0x0A then
        (if lx_charBuff s \<noteq> '' '' then Inl (UnusedCharBuff (lx_charBuff s))
         else Inr (s\<lparr>lx_tokens :=
                        (if length (lx_line s) > 0
                         then lx_tokens s @ [(lx_lineNum s + 1, lx_line s)] else lx_tokens s),
                      lx_line := [], lx_parsing := TOKEN_STOCK, lx_charBuff := '' '',
                      lx_lineNum := lx_lineNum s + 1\<rparr>))
      else if (c = CHR '' '' \<or> c = CHR ''>'') \<and> lx_parsing s \<noteq> TOKEN_COMMENT then Inr s
      else Inr (s\<lparr>lx_charBuff := lx_charBuff s @ [c]\<rparr>))"

text \<open>The buffer is closed off as a stock or as a flow token, unless it holds the blank only.\<close>

definition push_buffer :: "(string \<Rightarrow> error + Token) \<Rightarrow> LexState \<Rightarrow> error + LexState" where
  "push_buffer lexer s =
     (if lx_charBuff s \<noteq> '' '' then
        (case lexer (lx_charBuff s) of
           Inl e \<Rightarrow> Inl e
         | Inr t \<Rightarrow> Inr (s\<lparr>lx_line := lx_line s @ [t], lx_charBuff := '' ''\<rparr>))
      else Inr (s\<lparr>lx_charBuff := '' ''\<rparr>))"

definition lex_step :: "char \<Rightarrow> LexState \<Rightarrow> error + LexState" where
  "lex_step c s =
     (if c = CHR ''#'' \<and> length (lx_line s) = 0 \<and> lx_charBuff s = '' '' then
        lex_tail c (s\<lparr>lx_parsing := TOKEN_COMMENT\<rparr>)
      else if lx_parsing s = TOKEN_COMMENT then
        (if c = CHR 0x0A then
           lex_tail c (s\<lparr>lx_line := lx_line s @ [PlainToken TOKEN_COMMENT (tl (lx_charBuff s))],
                          lx_charBuff := '' ''\<rparr>)
         else lex_tail c s)
      else if lx_parsing s = TOKEN_STOCK then
        (if c = CHR ''#'' then
           (case push_buffer lexStock s of
              Inl e \<Rightarrow> Inl e
            | Inr s' \<Rightarrow> Inr (s'\<lparr>lx_parsing := TOKEN_COMMENT\<rparr>))
         else if c = CHR ''>'' then
           (case lexStock (lx_charBuff s) of
              Inl e \<Rightarrow> Inl e
            | Inr t \<Rightarrow>
                Inr (s\<lparr>lx_line := lx_line s @ [t, PlainToken TOKEN_FLOW_DIRECTION [c]],
                       lx_charBuff := '' '', lx_parsing := TOKEN_STOCK\<rparr>))
         else if c = CHR ''@'' then
           (case lexStock (lx_charBuff s) of
              Inl e \<Rightarrow> Inl e
            | Inr t \<Rightarrow>
                Inr (s\<lparr>lx_line := lx_line s @ [t, PlainToken TOKEN_FLOW_DELIMITER [c]],
                       lx_charBuff := '' '', lx_parsing := TOKEN_FLOW\<rparr>))
         else if c = CHR 0x0A then
           (case push_buffer lexStock s of
              Inl e \<Rightarrow> Inl e
            | Inr s' \<Rightarrow> lex_tail c s')
         else lex_tail c s)
      else if lx_parsing s = TOKEN_FLOW then
        (if c = CHR ''#'' then
           (case push_buffer lexFlow s of
              Inl e \<Rightarrow> Inl e
            | Inr s' \<Rightarrow> Inr (s'\<lparr>lx_parsing := TOKEN_COMMENT\<rparr>))
         else if c = CHR 0x0A then
           (case push_buffer lexFlow s of
              Inl e \<Rightarrow> Inl e
            | Inr s' \<Rightarrow> lex_tail c s')
         else lex_tail c s)
      else lex_tail c s)"

fun lex_loop :: "string \<Rightarrow> LexState \<Rightarrow> error + LexState" where
  "lex_loop [] s = Inr s"
| "lex_loop (c # cs) s = (case lex_step c s of Inl e \<Rightarrow> Inl e | Inr s' \<Rightarrow> lex_loop cs s')"

definition lex :: "string \<Rightarrow> error + LineToken list" where
  "lex txt =
     (case lex_loop (txt @ [CHR 0x0A])
             \<lparr>lx_tokens = [], lx_line = [], lx_charBuff = '' '', lx_parsing = TOKEN_STOCK,
              lx_lineNum = 0\<rparr> of
        Inl e \<Rightarrow> Inl e
      | Inr s \<Rightarrow> Inr (lx_tokens s))"

section \<open>The parser\<close>

text \<open>
  \<open>buildStock\<close> returns the model and the reference to the stock it built or found. A
  stock that exists is changed in place, in the list of the model. When the second check
  raises, the initial value of the existing stock may already be filled in; the error
  alone is returned.
\<close>

definition set_initial :: "Model \<Rightarrow> nat \<Rightarrow> Formula \<Rightarrow> Model" where
  "set_initial m i f = m\<lparr>stocks := (stocks m)[i := (stocks m ! i)\<lparr>initial := f\<rparr>]\<rparr>"

definition set_maximum :: "Model \<Rightarrow> nat \<Rightarrow> Formula \<Rightarrow> Model" where
  "set_maximum m i f = m\<lparr>stocks := (stocks m)[i := (stocks m ! i)\<lparr>maximum := f\<rparr>]\<rparr>"

definition buildStock :: "Model \<Rightarrow> Token \<Rightarrow> error + (Model \<times> nat)" where
  "buildStock m tokenTuple =
     (case tokenTuple of
        StockToken kind nm params \<Rightarrow>
          if kind = TOKEN_STOCK_INFINITE then Model_infiniteStock m nm
          else
            and_then (new_Formula (DefInt 0) (Num 0)) (\<lambda>defaultInitial.
            and_then (new_Formula DefInfinity (Num 0)) (\<lambda>defaultMaximum.
            and_then (if length params > 0 then new_Formula (DefToken (params ! 0)) (Num 0)
                      else Inr defaultInitial) (\<lambda>ini.
            and_then (if length params > 1 then new_Formula (DefToken (params ! 1)) (Num 0)
                      else Inr defaultMaximum) (\<lambda>mx.
              (case getStock_ref m nm of
                 Some exists \<Rightarrow>
                   and_then
                     (if lexed ini \<noteq> lexed defaultInitial then
                        (if lexed (initial (stocks m ! exists)) \<noteq> lexed ini \<and>
                            lexed (initial (stocks m ! exists)) = lexed defaultInitial
                         then Inr (set_initial m exists ini)
                         else Inl (ConflictingValues nm (lexed (initial (stocks m ! exists)))
                                     (lexed ini) 0))
                      else Inr m) (\<lambda>m1.
                   and_then
                     (if lexed mx \<noteq> lexed defaultMaximum then
                        (if lexed (maximum (stocks m1 ! exists)) \<noteq> lexed mx \<and>
                            lexed (maximum (stocks m1 ! exists)) = lexed defaultMaximum
                         then Inr (set_maximum m1 exists mx)
                         else Inl (ConflictingValues nm (lexed (maximum (stocks m1 ! exists)))
                                     (lexed mx) 0))
                      else Inr m1) (\<lambda>m2. Inr (m2, exists)))
               | None \<Rightarrow> Inr (Model_stock m nm ini mx True))))))
      | FlowToken nm params \<Rightarrow> Inl TypeError
      | PlainToken kind val \<Rightarrow> Inl TypeError)"

definition parseStock :: "Model \<Rightarrow> string \<Rightarrow> error + (Model \<times> nat)" where
  "parseStock m txt = and_then (lexStock txt) (buildStock m)"

text \<open>
  \<open>buildFlow\<close>: the class of the rate by the name of the flow, or by its first parameter
  when the flow has no name. The scanner gives every flow token a parameter.
\<close>

definition toLowerCase :: "string \<Rightarrow> string" where
  "toLowerCase txt =
     map (\<lambda>c. if 65 \<le> (of_char c :: nat) \<and> (of_char c :: nat) \<le> 90
               then char_of ((of_char c :: nat) + 32) else c) txt"

definition is_single_decimal :: "token list \<Rightarrow> bool" where
  "is_single_decimal tokens =
     (case tokens of [SimpleToken kind val] \<Rightarrow> kind = TOKEN_DECIMAL | _ \<Rightarrow> False)"

definition buildFlow :: "Model \<Rightarrow> nat \<Rightarrow> nat \<Rightarrow> Token \<Rightarrow> error + Model" where
  "buildFlow m src dest tok =
     (case tok of
        FlowToken classStr params \<Rightarrow>
          and_then
            (if toLowerCase classStr = ''leak'' then Inr new_Leak
             else if toLowerCase classStr = ''conversion'' then Inr new_Conversion
             else if toLowerCase classStr = ''rate'' then Inr new_Rate
             else if classStr = [] then
               (if length params > 0 \<and> is_single_decimal (params ! 0) then Inr new_Conversion
                else Inr new_Rate)
             else Inl (UnknownFlowType classStr 0)) (\<lambda>rateClass.
          (case params of
             [] \<Rightarrow> Inl TypeError
           | p # ps \<Rightarrow> and_then (rateClass (DefToken p)) (\<lambda>r. Model_flow m src dest r)))
      | StockToken kind nm params \<Rightarrow> Inl TypeError
      | PlainToken kind val \<Rightarrow> Inl TypeError)"

text \<open>
  \<open>parse\<close>: the loop over the tokens of one line with the two stocks found so far, the
  handler of the errors of a line, and the loop over the lines.
\<close>

fun is_stock_token :: "Token \<Rightarrow> bool" where
  "is_stock_token (StockToken kind nm params) = True"
| "is_stock_token t = False"

fun is_flow_token :: "Token \<Rightarrow> bool" where
  "is_flow_token (FlowToken nm params) = True"
| "is_flow_token t = False"

fun parse_line :: "Token list \<Rightarrow> Model \<Rightarrow> nat option \<Rightarrow> nat option \<Rightarrow> error + Model" where
  "parse_line [] m firstStock secondStock = Inr m"
| "parse_line (lineToken # rest) m firstStock secondStock =
     (if is_stock_token lineToken then
        (if firstStock = None then
           and_then (buildStock m lineToken) (\<lambda>(m', s). parse_line rest m' (Some s) secondStock)
         else if secondStock = None then
           and_then (buildStock m lineToken) (\<lambda>(m', s). parse_line rest m' firstStock (Some s))
         else parse_line rest m firstStock secondStock)
      else if is_flow_token lineToken then
        (case (firstStock, secondStock) of
           (Some a, Some b) \<Rightarrow>
             and_then (buildFlow m a b lineToken) (\<lambda>m'. parse_line rest m' firstStock secondStock)
         | _ \<Rightarrow> parse_line rest m firstStock secondStock)
      else parse_line rest m firstStock secondStock)"

fun with_line :: "nat \<Rightarrow> error \<Rightarrow> error" where
  "with_line n (ConflictingValues nm a b k) = ConflictingValues nm a b n"
| "with_line n (InvalidParameters txt k) = InvalidParameters txt n"
| "with_line n (UnknownFlowType t k) = UnknownFlowType t n"
| "with_line n e = ParseError n e"

fun parse_lines :: "LineToken list \<Rightarrow> Model \<Rightarrow> error + Model" where
  "parse_lines [] m = Inr m"
| "parse_lines ((n, line) # rest) m =
     (case parse_line line m None None of
        Inl e \<Rightarrow> Inl (with_line n e)
      | Inr m' \<Rightarrow> parse_lines rest m')"

definition parse :: "string \<Rightarrow> error + Model" where
  "parse txt = and_then (lex txt) (\<lambda>tokens. parse_lines tokens (new_Model ''Parsed''))"

section \<open>Predicates and examples of the parser\<close>







section \<open>Properties of formulas\<close>

lemma compute_loop_append:
  "compute_loop state (xs @ ys) acc op =
     (case compute_loop state xs acc op of
        Inl e \<Rightarrow> Inl e
      | Inr a \<Rightarrow> compute_loop state ys a (pending_op xs op))"
  by (induction state xs acc op rule: compute_loop.induct) (simp_all split: sum.splits)

lemma apply_op_not_None: "apply_op acc op v \<noteq> None"
  by (cases acc) (simp_all add: apply_op_def)

lemma compute_loop_keeps_acc:
  "compute_loop state ts acc op = Inr r \<Longrightarrow> acc \<noteq> None \<Longrightarrow> r \<noteq> None"
proof (induction ts arbitrary: acc op)
  case Nil
  then show ?case by simp
next
  case (Cons t ts)
  show ?case
  proof (cases t)
    case (SimpleToken kind val)
    then show ?thesis using Cons.prems Cons.IH apply_op_not_None
      by (auto split: if_splits)
  next
    case (FormulaToken sub)
    then show ?thesis using Cons.prems Cons.IH apply_op_not_None
      by (auto split: sum.splits)
  qed
qed

lemma validate_first_operand:
  "validate ts = Inr () \<Longrightarrow> \<exists>t rest. ts = t # rest \<and> \<not> is_op t"
  by (cases ts) (auto simp: validate_def split: if_splits)

lemma compute_loop_valid_acc:
  assumes "validate ts = Inr ()" and "compute_loop state ts None None = Inr r"
  shows "r \<noteq> None"
proof -
  from assms(1) obtain t rest where ts: "ts = t # rest" and t: "\<not> is_op t"
    using validate_first_operand by blast
  show ?thesis
  proof (cases t)
    case (SimpleToken kind val)
    then show ?thesis using assms(2) ts t compute_loop_keeps_acc apply_op_not_None
      by (auto split: if_splits)
  next
    case (FormulaToken sub)
    then show ?thesis using assms(2) ts compute_loop_keeps_acc apply_op_not_None
      by (auto split: sum.splits)
  qed
qed

lemma compute_loop_operand:
  "\<not> is_op t \<Longrightarrow>
   compute_loop state [t] (Some a) op =
     (case compute_loop state [t] None None of
        Inl e \<Rightarrow> Inl e
      | Inr r \<Rightarrow> Inr (apply_op (Some a) op (case r of None \<Rightarrow> Num 0 | Some v \<Rightarrow> v)))"
  by (cases t) (auto simp: apply_op_def split: sum.splits)

lemma compute_loop_operand_Some:
  "\<not> is_op t \<Longrightarrow> compute_loop state [t] None None = Inr r \<Longrightarrow> r \<noteq> None"
  by (cases t) (auto simp: apply_op_def split: sum.splits if_splits)

lemma compute_snoc:
  assumes "validate ts = Inr ()" and "\<not> is_op t"
  shows "compute \<lparr>lexed = ts @ [SimpleToken TOKEN_OP opr, t], defaultValue = d\<rparr> state =
     (case compute \<lparr>lexed = ts, defaultValue = d\<rparr> state of
        Inl e \<Rightarrow> Inl e
      | Inr a \<Rightarrow>
          (case compute \<lparr>lexed = [t], defaultValue = d\<rparr> state of
             Inl e \<Rightarrow> Inl e
           | Inr v \<Rightarrow>
               Inr (if opr = ''/'' then js_div a v
                    else if opr = ''*'' then js_mul a v
                    else if opr = ''+'' then js_add a v
                    else if opr = ''-'' then js_sub a v
                    else a)))"
proof (cases "compute_loop state ts None None")
  case (Inl e)
  then show ?thesis by (simp add: compute_def compute_loop_append)
next
  case (Inr r)
  then obtain a where r: "r = Some a"
    using compute_loop_valid_acc [OF assms(1)] by (cases r) auto
  show ?thesis
  proof (cases "compute_loop state [t] None None")
    case (Inl e)
    then show ?thesis using Inr r assms(2)
      by (simp add: compute_def compute_loop_append compute_loop_operand)
  next
    case v: (Inr rv)
    then obtain v where rv: "rv = Some v"
      using compute_loop_operand_Some [OF assms(2)] by (cases rv) auto
    show ?thesis using Inr r v rv assms(2)
      by (simp add: compute_def compute_loop_append compute_loop_operand apply_op_def)
  qed
qed

text \<open>
  Claim C5. \<open>Formula.compute\<close> evaluates the leaves strictly from left to right, without
  operator precedence: the value of a valid leaf sequence followed by an operator and one
  more operand is that operator applied to the value of the whole sequence before it and
  the value of the operand, whatever operators the sequence contains. The formula
  \<open>10 + 5 * 2\<close> therefore computes to 30, and not to 20.
\<close>

theorem compute_left_to_right:
  "(validate ts = Inr () \<longrightarrow> \<not> is_op t \<longrightarrow>
      compute \<lparr>lexed = ts @ [SimpleToken TOKEN_OP opr, t], defaultValue = d\<rparr> state =
        (case compute \<lparr>lexed = ts, defaultValue = d\<rparr> state of
           Inl e \<Rightarrow> Inl e
         | Inr a \<Rightarrow>
             (case compute \<lparr>lexed = [t], defaultValue = d\<rparr> state of
                Inl e \<Rightarrow> Inl e
              | Inr v \<Rightarrow>
                  Inr (if opr = ''/'' then js_div a v
                       else if opr = ''*'' then js_mul a v
                       else if opr = ''+'' then js_add a v
                       else if opr = ''-'' then js_sub a v
                       else a)))) \<and>
   (case new_Formula (DefString ''10 + 5 * 2'') (Num 0) of
      Inl e \<Rightarrow> Inl e
    | Inr f \<Rightarrow> compute f Map.empty) = Inr (Num 30)"
proof
  show "validate ts = Inr () \<longrightarrow> \<not> is_op t \<longrightarrow>
      compute \<lparr>lexed = ts @ [SimpleToken TOKEN_OP opr, t], defaultValue = d\<rparr> state =
        (case compute \<lparr>lexed = ts, defaultValue = d\<rparr> state of
           Inl e \<Rightarrow> Inl e
         | Inr a \<Rightarrow>
             (case compute \<lparr>lexed = [t], defaultValue = d\<rparr> state of
                Inl e \<Rightarrow> Inl e
              | Inr v \<Rightarrow>
                  Inr (if opr = ''/'' then js_div a v
                       else if opr = ''*'' then js_mul a v
                       else if opr = ''+'' then js_add a v
                       else if opr = ''-'' then js_sub a v
                       else a)))"
    using compute_snoc by blast
  show "(case new_Formula (DefString ''10 + 5 * 2'') (Num 0) of
      Inl e \<Rightarrow> Inl e
    | Inr f \<Rightarrow> compute f Map.empty) = Inr (Num 30)"
    by code_simp
qed

theorem compute_left_to_right_witness:
  "validate [SimpleToken TOKEN_WHOLE ''10'', SimpleToken TOKEN_OP ''+'', SimpleToken TOKEN_WHOLE ''5'']
     = Inr () \<and>
   \<not> is_op (SimpleToken TOKEN_WHOLE ''2'') \<and>
   compute \<lparr>lexed = [SimpleToken TOKEN_WHOLE ''10'', SimpleToken TOKEN_OP ''+'',
                      SimpleToken TOKEN_WHOLE ''5'', SimpleToken TOKEN_OP ''*'',
                      SimpleToken TOKEN_WHOLE ''2''], defaultValue = Num 0\<rparr> Map.empty
     = Inr (js_mul (Num 15) (Num 2))"
proof -
  have v: "validate [SimpleToken TOKEN_WHOLE ''10'', SimpleToken TOKEN_OP ''+'',
                     SimpleToken TOKEN_WHOLE ''5''] = Inr ()"
    by code_simp
  have o: "\<not> is_op (SimpleToken TOKEN_WHOLE ''2'')"
    by simp
  have a: "compute \<lparr>lexed = [SimpleToken TOKEN_WHOLE ''10'', SimpleToken TOKEN_OP ''+'',
                              SimpleToken TOKEN_WHOLE ''5''], defaultValue = Num 0\<rparr> Map.empty
             = Inr (Num 15)"
    by code_simp
  have b: "compute \<lparr>lexed = [SimpleToken TOKEN_WHOLE ''2''], defaultValue = Num 0\<rparr> Map.empty
             = Inr (Num 2)"
    by code_simp
  show ?thesis
    using v o a b
      compute_left_to_right [of "[SimpleToken TOKEN_WHOLE ''10'', SimpleToken TOKEN_OP ''+'',
          SimpleToken TOKEN_WHOLE ''5'']" "SimpleToken TOKEN_WHOLE ''2''" "''*''" "Num 0" Map.empty]
    by simp
qed

text \<open>
  Claim C9. Computing a formula whose leaf sequence is empty returns the default of the
  formula, in every state; the constructor, which validates, refuses to build a formula
  from an empty leaf sequence.
\<close>

theorem compute_empty_returns_default:
  "compute \<lparr>lexed = [], defaultValue = d\<rparr> state = Inr d \<and>
   new_Formula (DefToken []) d =
     Inl (InvalidFormula [] ''formula is empty. must specify a number or a reference'')"
  by (simp add: compute_def new_Formula_def validate_def)

theorem compute_empty_returns_default_witness:
  "compute \<lparr>lexed = [], defaultValue = Num 42\<rparr> Map.empty = Inr (Num 42)"
  using compute_empty_returns_default [of "Num 42" Map.empty] by simp

lemma references_loop_flat:
  "references_loop ts refs = refs @ map (\<lambda>t. case t of SimpleToken k v \<Rightarrow> v | FormulaToken s \<Rightarrow> [])
     (filter (\<lambda>t. case t of SimpleToken k v \<Rightarrow> k = TOKEN_REFERENCE | FormulaToken s \<Rightarrow> False) ts)"
  by (induction ts refs rule: references_loop.induct) simp_all

text \<open>
  Claim C3. \<open>Formula.references\<close> walks the top-level leaves only. For the formula
  \<open>(a + b) * 2\<close> it returns no name at all, while the reference leaves of the token tree
  are \<open>a\<close> and \<open>b\<close>, inside the parenthesised group.
\<close>

theorem references_skips_nested_groups:
  "(case new_Formula (DefString ''(a + b) * 2'') (Num 0) of
      Inl e \<Rightarrow> None
    | Inr f \<Rightarrow> Some (lexed f, references f, spec_references (lexed f))) =
   Some ([FormulaToken [SimpleToken TOKEN_REFERENCE ''a'', SimpleToken TOKEN_OP ''+'',
                        SimpleToken TOKEN_REFERENCE ''b''],
          SimpleToken TOKEN_OP ''*'', SimpleToken TOKEN_WHOLE ''2''],
         [], [''a'', ''b''])"
  by code_simp

section \<open>Properties of the simulation\<close>

lemma compute_loop_total:
  "computable ts \<Longrightarrow> \<exists>r. compute_loop state ts acc op = Inr r"
proof (induction state ts acc op rule: compute_loop.induct)
  case (1 state acc op)
  then show ?case by simp
next
  case (2 state kind valStr ts acc op)
  then show ?case by auto
next
  case (3 state sub ts acc op)
  from "3.prems" have v: "validate sub = Inr ()" and cs: "computable sub" and ct: "computable ts"
    by simp_all
  from "3.IH"(1) [OF v cs] obtain r where r: "compute_loop state sub None None = Inr r"
    by blast
  from "3.IH"(2) [OF v r ct] show ?case
    using v r by simp
qed

lemma compute_total: "computable (lexed f) \<Longrightarrow> \<exists>v. compute f state = Inr v"
  using compute_loop_total [of "lexed f" state None None]
  by (auto simp: compute_def split: option.splits)

lemma calculate_total:
  assumes "computable (lexed (formula r))"
  shows "\<exists>p. calculate r state src dest capacity = Inr p"
proof -
  from compute_total [OF assms] obtain v where v: "compute (formula r) state = Inr v"
    by blast
  show ?thesis
    using v by (cases r) (simp_all add: Let_def)
qed

lemma Flow_change_total:
  assumes "computable (lexed (formula (rate flow)))"
    and "computable (lexed (maximum (stocks m ! destination flow)))"
  shows "\<exists>p. Flow_change m flow state src dest = Inr p"
proof -
  from compute_total [OF assms(2)] obtain c
    where "compute (maximum (stocks m ! destination flow)) state = Inr c" by blast
  then show ?thesis
    using calculate_total [OF assms(1)] by (simp add: Flow_change_def Let_def)
qed

lemma advance_flows_total:
  assumes "list_all (\<lambda>flow. computable (lexed (formula (rate flow))) \<and>
                        computable (lexed (maximum (stocks m ! destination flow)))) fs"
  shows "\<exists>p. advance_flows m fs state deferred = Inr p"
  using assms
proof (induction fs arbitrary: state deferred)
  case Nil
  then show ?case by simp
next
  case (Cons flow fs)
  then have a: "computable (lexed (formula (rate flow)))"
    and b: "computable (lexed (maximum (stocks m ! destination flow)))"
    and rest: "list_all (\<lambda>flow. computable (lexed (formula (rate flow))) \<and>
                        computable (lexed (maximum (stocks m ! destination flow)))) fs"
    by simp_all
  from Flow_change_total [OF a b] obtain rem add where
    "Flow_change m flow state (state_get state (name (stocks m ! source flow)))
       (state_get state (name (stocks m ! destination flow))) = Inr (rem, add)"
    by (metis surj_pair)
  then show ?case using Cons.IH [OF rest] by (simp add: Let_def)
qed

lemma advance_total:
  "model_computable m \<Longrightarrow> \<exists>s. advance m state = Inr s"
proof -
  assume "model_computable m"
  then have "list_all (\<lambda>flow. computable (lexed (formula (rate flow))) \<and>
                        computable (lexed (maximum (stocks m ! destination flow)))) (rev (flows m))"
    by (simp add: model_computable_def list_all_iff)
  from advance_flows_total [OF this, of state "[]"] show ?thesis
    by (auto simp: advance_def)
qed

lemma run_rounds_total:
  "model_computable m \<Longrightarrow>
   \<exists>more. run_rounds m n state snapshots = Inr (snapshots @ more) \<and> length more = n"
proof (induction n arbitrary: state snapshots)
  case 0
  then show ?case by simp
next
  case (Suc n)
  from advance_total [OF Suc.prems] obtain s where s: "advance m state = Inr s" by blast
  from Suc.IH [OF Suc.prems, of s "snapshots @ [s]"] obtain more
    where "run_rounds m n s (snapshots @ [s]) = Inr ((snapshots @ [s]) @ more)" "length more = n"
    by blast
  then show ?case using s by (intro exI [of _ "s # more"]) simp
qed

lemma init_outside_path_total:
  "list_all (\<lambda>stock. computable (lexed (initial stock))) ss \<Longrightarrow>
   \<exists>s. init_outside_path path ss state = Inr s"
proof (induction ss arbitrary: state)
  case Nil
  then show ?case by simp
next
  case (Cons stock ss)
  then have c: "computable (lexed (initial stock))"
    and rest: "list_all (\<lambda>stock. computable (lexed (initial stock))) ss"
    by simp_all
  from compute_total [OF c] obtain v where "compute (initial stock) state = Inr v" by blast
  then show ?case using Cons.IH [OF rest] by simp
qed

lemma find_in_set: "find P xs = Some x \<Longrightarrow> x \<in> set xs"
  by (induction xs) (auto split: if_splits)

lemma init_on_path_total:
  "list_all (\<lambda>stock. computable (lexed (initial stock))) (stocks m) \<Longrightarrow>
   \<exists>s. init_on_path m path state = Inr s"
proof (induction path arbitrary: state)
  case Nil
  then show ?case by simp
next
  case (Cons nm path)
  show ?case
  proof (cases "getStock m nm")
    case None
    then show ?thesis using Cons.IH [OF Cons.prems] by simp
  next
    case (Some stock)
    then have "stock \<in> set (stocks m)"
      by (simp add: getStock_def find_in_set)
    with Cons.prems have "computable (lexed (initial stock))"
      by (simp add: list_all_iff)
    from compute_total [OF this] obtain v where "compute (initial stock) state = Inr v" by blast
    then show ?thesis using Some Cons.IH [OF Cons.prems] by simp
  qed
qed

lemma new_State_total:
  "model_computable m \<Longrightarrow> \<exists>s. new_State m = Inr s"
proof -
  assume mc: "model_computable m"
  then have c: "list_all (\<lambda>stock. computable (lexed (initial stock))) (stocks m)"
    by (simp add: model_computable_def)
  from init_outside_path_total [OF c] obtain s0
    where "init_outside_path (modelInitialPath m) (stocks m) Map.empty = Inr s0" by blast
  then show ?thesis using init_on_path_total [OF c] by (simp add: new_State_def)
qed

lemma Model_validate_frame:
  "Model_validate m = Inr m' \<Longrightarrow> stocks m' = stocks m \<and> flows m' = flows m"
  by (auto simp: Model_validate_def validateInitialCycles_def split: sum.splits if_splits prod.splits)

lemma model_computable_cong:
  "stocks m' = stocks m \<Longrightarrow> flows m' = flows m \<Longrightarrow> model_computable m' = model_computable m"
  by (simp add: model_computable_def)

lemma run_snapshots:
  assumes "Model_validate m = Inr m'" and "model_computable m"
  shows "\<exists>state snapshots. new_State m' = Inr state \<and> run m n = Inr (m', snapshots) \<and>
           length snapshots = n + 1 \<and> snapshots ! 0 = state"
proof -
  from Model_validate_frame [OF assms(1)] assms(2) have mc: "model_computable m'"
    using model_computable_cong by blast
  from new_State_total [OF mc] obtain state where st: "new_State m' = Inr state" by blast
  from run_rounds_total [OF mc, of n state "[state]"] obtain more
    where "run_rounds m' n state [state] = Inr ([state] @ more)" "length more = n" by blast
  then show ?thesis using st assms(1) by (simp add: run_def)
qed


lemma empty_group_example_model: "empty_group_example = Inr empty_group_model"
  by code_simp

text \<open>
  Claim C4, as stated, fails: the model of the stock \<open>a(1 + ())\<close> is built without error
  and passes validation, and \<open>run\<close> raises the error of the empty formula when the state
  is constructed, so it returns no snapshots.
\<close>

theorem run_raises_after_validation:
  "empty_group_example = Inr empty_group_model \<and>
   Model_validate empty_group_model = Inr empty_group_model \<and>
   run empty_group_model 1 =
     Inl (InvalidFormula [] ''formula is empty. must specify a number or a reference'')"
proof -
  have v: "Model_validate empty_group_model = Inr empty_group_model"
    by code_simp
  have s: "new_State empty_group_model =
     Inl (InvalidFormula [] ''formula is empty. must specify a number or a reference'')"
    by (simp add: new_State_def empty_group_model_def compute_def validate_def)
  have "run empty_group_model 1 =
     Inl (InvalidFormula [] ''formula is empty. must specify a number or a reference'')"
    unfolding run_def v by (simp add: s)
  with v show ?thesis
    using empty_group_example_model by blast
qed

text \<open>
  Claim C4, amended. For every model that passes validation and whose formulas raise
  nothing when they are computed (every nested group is itself a valid formula), and
  for every natural number \<open>n\<close>, \<open>run n\<close> returns a list of exactly \<open>n + 1\<close> snapshots,
  and the snapshot at index 0 is the state that the constructor of \<open>State\<close> builds for
  the validated model.
\<close>

theorem run_returns_snapshots:
  "Model_validate m = Inr m' \<Longrightarrow> model_computable m \<Longrightarrow>
   \<exists>state snapshots. new_State m' = Inr state \<and> run m n = Inr (m', snapshots) \<and>
     length snapshots = n + 1 \<and> snapshots ! 0 = state"
  by (rule run_snapshots)

theorem run_returns_snapshots_witness:
  "Model_validate fan_in_model = Inr fan_in_model \<and> model_computable fan_in_model \<and>
   (\<exists>state snapshots. new_State fan_in_model = Inr state \<and>
      run fan_in_model 2 = Inr (fan_in_model, snapshots) \<and>
      length snapshots = 3 \<and> snapshots ! 0 = state)"
proof -
  have v: "Model_validate fan_in_model = Inr fan_in_model"
    by code_simp
  have c: "model_computable fan_in_model"
    by code_simp
  from run_returns_snapshots [OF v c, of 2] show ?thesis
    using v c by simp
qed






section \<open>The two invariants of a round\<close>


lemma adjusted_not_negative:
  "not_above dest M \<Longrightarrow>
   not_negative (if \<not> js_strict_eq dest PosInf then js_sub M dest else M)"
  by (cases dest; cases M)
     (auto simp: not_above_def not_negative_def js_gt_def js_strict_eq_def js_sub_def)







































section \<open>Properties of the dependency resolver\<close>

lemma edges_of_update:
  "edges_of (AList.update k v g) u = (if u = k then v else edges_of g u)"
  by (simp add: edges_of_def update_conv')

lemma keys_update_present:
  "map_of g k = Some v \<Longrightarrow> map fst (AList.update k w g) = map fst g"
  by (induction g) (auto split: if_splits)

lemma count_list_remove1:
  "count_list (remove1 x xs) y = (if x = y then count_list xs y - 1 else count_list xs y)"
  by (induction xs) auto

lemma count_list_zero_Nil:
  assumes "\<forall>y. count_list xs y = 0"
  shows "xs = []"
proof (cases xs)
  case Nil
  then show ?thesis .
next
  case (Cons a list)
  from assms have "count_list xs a = 0" by blast
  with Cons show ?thesis by simp
qed

lemma trim_edges_effect:
  "trim_edges node es inGraph = Inr inGraph' \<Longrightarrow>
   map fst inGraph' = map fst inGraph \<and>
   (\<forall>v w. count_list (edges_of inGraph' v) w =
      (if w = node then count_list (edges_of inGraph v) node - count_list es v
       else count_list (edges_of inGraph v) w))"
proof (induction es arbitrary: inGraph)
  case Nil
  then show ?case by simp
next
  case (Cons e es)
  from Cons.prems obtain srcs where srcs: "map_of inGraph e = Some srcs"
    and rec: "trim_edges node es (AList.update e (remove1 node srcs) inGraph) = Inr inGraph'"
    by (auto split: option.splits)
  from srcs have e: "edges_of inGraph e = srcs" by (simp add: edges_of_def)
  from Cons.IH [OF rec] keys_update_present [OF srcs]
  have keys: "map fst inGraph' = map fst inGraph"
    and cnt: "\<forall>v w. count_list (edges_of inGraph' v) w =
      (if w = node
       then count_list (edges_of (AList.update e (remove1 node srcs) inGraph) v) node -
            count_list es v
       else count_list (edges_of (AList.update e (remove1 node srcs) inGraph) v) w)"
    by simp_all
  show ?case
  proof (intro conjI allI)
    show "map fst inGraph' = map fst inGraph" by (rule keys)
    fix v w
    show "count_list (edges_of inGraph' v) w =
      (if w = node then count_list (edges_of inGraph v) node - count_list (e # es) v
       else count_list (edges_of inGraph v) w)"
      using cnt e by (auto simp: edges_of_update count_list_remove1)
  qed
qed

lemma trim_edges_total:
  "set es \<subseteq> set (map fst inGraph) \<Longrightarrow> \<exists>inGraph'. trim_edges node es inGraph = Inr inGraph'"
proof (induction es arbitrary: inGraph)
  case Nil
  then show ?case by simp
next
  case (Cons e es)
  then obtain srcs where srcs: "map_of inGraph e = Some srcs"
    by (cases "map_of inGraph e") (auto simp: map_of_eq_None_iff)
  from Cons.prems keys_update_present [OF srcs]
  have "set es \<subseteq> set (map fst (AList.update e (remove1 node srcs) inGraph))" by simp
  from Cons.IH [OF this] srcs show ?case by simp
qed

lemma peel_step:
  assumes inv: "resolver_inv out0 s"
    and src: "map_of (ps_inGraph s) node = Some []"
    and edg: "map_of (ps_cycles s) node = Some edges" and ne: "edges \<noteq> []"
    and tr: "trim_edges node edges (ps_inGraph s) = Inr inGraph'"
  shows "resolver_inv out0
           \<lparr>ps_inGraph = inGraph', ps_cycles = AList.update node [] (ps_cycles s),
            ps_deps = ps_deps s @ [node], ps_changed = True\<rparr>"
proof -
  let ?C = "ps_cycles s" and ?I = "ps_inGraph s" and ?D = "ps_deps s"
  from inv have keysC: "map fst ?C = map fst out0"
    and keysI: "set (map fst ?I) = set (map fst out0)"
    and targets: "\<forall>u. set (edges_of out0 u) \<subseteq> set (map fst out0)"
    and shape: "\<forall>u. edges_of ?C u = [] \<or> edges_of ?C u = edges_of out0 u"
    and cons: "\<forall>u v. count_list (edges_of ?C u) v = count_list (edges_of ?I v) u"
    and dist: "distinct ?D"
    and deps: "set ?D = {u. edges_of out0 u \<noteq> [] \<and> edges_of ?C u = []}"
    and ord: "\<forall>i < length ?D. \<forall>w. ?D ! i \<in> set (edges_of out0 w) \<longrightarrow> w \<in> set (take i ?D)"
    by (simp_all add: resolver_inv_def)
  from edg have eC: "edges_of ?C node = edges" by (simp add: edges_of_def)
  from src have eI: "edges_of ?I node = []" by (simp add: edges_of_def)
  from eC ne shape have out_node: "edges_of out0 node = edges" by metis
  from trim_edges_effect [OF tr] have keys': "map fst inGraph' = map fst ?I"
    and cnt: "\<And>v w. count_list (edges_of inGraph' v) w =
      (if w = node then count_list (edges_of ?I v) node - count_list edges v
       else count_list (edges_of ?I v) w)"
    by simp_all
  have node_new: "node \<notin> set ?D" using deps eC ne by auto
  have c1: "map fst (AList.update node [] ?C) = map fst out0"
    using keys_update_present [OF edg] keysC by simp
  have c2: "set (map fst inGraph') = set (map fst out0)"
    using keys' keysI by simp
  have c4: "\<forall>u. edges_of (AList.update node [] ?C) u = [] \<or>
      edges_of (AList.update node [] ?C) u = edges_of out0 u"
    using shape by (simp add: edges_of_update)
  have c5: "\<forall>u v. count_list (edges_of (AList.update node [] ?C) u) v =
             count_list (edges_of inGraph' v) u"
  proof (intro allI)
    fix u v
    show "count_list (edges_of (AList.update node [] ?C) u) v =
             count_list (edges_of inGraph' v) u"
    proof (cases "u = node")
      case True
      have "count_list (edges_of ?I v) node = count_list edges v"
        using cons eC by metis
      then show ?thesis using True by (simp add: edges_of_update cnt)
    next
      case False
      then show ?thesis using cons by (simp add: edges_of_update cnt)
    qed
  qed
  have c6: "distinct (?D @ [node])" using dist node_new by simp
  have c7: "set (?D @ [node]) =
      {u. edges_of out0 u \<noteq> [] \<and> edges_of (AList.update node [] ?C) u = []}"
    using deps out_node ne by (auto simp: edges_of_update)
  have c8: "\<forall>i < length (?D @ [node]). \<forall>w. (?D @ [node]) ! i \<in> set (edges_of out0 w) \<longrightarrow>
           w \<in> set (take i (?D @ [node]))"
  proof (intro allI impI)
    fix i w
    assume i: "i < length (?D @ [node])" and w: "(?D @ [node]) ! i \<in> set (edges_of out0 w)"
    show "w \<in> set (take i (?D @ [node]))"
    proof (cases "i < length ?D")
      case True
      with w ord show ?thesis by (simp add: nth_append)
    next
      case False
      with i have i_eq: "i = length ?D" by simp
      with w have nw: "node \<in> set (edges_of out0 w)" by simp
      have "count_list (edges_of ?C w) node = 0"
        using cons eI by simp
      then have "node \<notin> set (edges_of ?C w)" by (simp add: count_list_0_iff)
      with nw shape have "edges_of ?C w = []" "edges_of out0 w \<noteq> []" by (metis, auto)
      with deps have "w \<in> set ?D" by simp
      with i_eq show ?thesis by simp
    qed
  qed
  show ?thesis
    unfolding resolver_inv_def using c1 c2 targets c4 c5 c6 c7 c8 by simp
qed

lemma resolver_inv_changed:
  "resolver_inv out0 (s\<lparr>ps_changed := b\<rparr>) = resolver_inv out0 s"
  by (simp add: resolver_inv_def)

lemma key_lookup: "k \<in> set (map fst g) \<Longrightarrow> \<exists>v. map_of g k = Some v"
  by (cases "map_of g k") (auto simp: map_of_eq_None_iff)

lemma pass_inv:
  "resolver_inv out0 s \<Longrightarrow> set nodes \<subseteq> set (map fst out0) \<Longrightarrow>
   \<exists>s'. findCycles_pass nodes s = Inr s' \<and> resolver_inv out0 s' \<and>
     (\<not> ps_changed s' \<longrightarrow>
        s' = s \<and> (\<forall>node \<in> set nodes.
          \<not> (edges_of (ps_inGraph s) node = [] \<and> edges_of (ps_cycles s) node \<noteq> [])))"
proof (induction nodes arbitrary: s)
  case Nil
  then show ?case by simp
next
  case (Cons node nodes)
  from Cons.prems have inv: "resolver_inv out0 s" and nk: "node \<in> set (map fst out0)"
    and rest: "set nodes \<subseteq> set (map fst out0)" by simp_all
  from inv have keysC: "map fst (ps_cycles s) = map fst out0"
    and keysI: "set (map fst (ps_inGraph s)) = set (map fst out0)"
    and targets: "\<forall>u. set (edges_of out0 u) \<subseteq> set (map fst out0)"
    and shape: "\<forall>u. edges_of (ps_cycles s) u = [] \<or> edges_of (ps_cycles s) u = edges_of out0 u"
    by (simp_all add: resolver_inv_def)
  from nk keysI obtain sources where src: "map_of (ps_inGraph s) node = Some sources"
    using key_lookup [of node "ps_inGraph s"] by auto
  from nk keysC obtain edges where edg: "map_of (ps_cycles s) node = Some edges"
    using key_lookup [of node "ps_cycles s"] by auto
  from src have eI: "edges_of (ps_inGraph s) node = sources" by (simp add: edges_of_def)
  from edg have eC: "edges_of (ps_cycles s) node = edges" by (simp add: edges_of_def)
  show ?case
  proof (cases "length sources = 0 \<and> length edges > 0")
    case True
    then have s0: "sources = []" and ne: "edges \<noteq> []" by simp_all
    from eC ne shape have "edges_of out0 node = edges" by metis
    with targets keysI have "set edges \<subseteq> set (map fst (ps_inGraph s))" by metis
    from trim_edges_total [OF this] obtain inGraph'
      where tr: "trim_edges node edges (ps_inGraph s) = Inr inGraph'" by blast
    let ?s1 = "\<lparr>ps_inGraph = inGraph', ps_cycles = AList.update node [] (ps_cycles s),
                 ps_deps = ps_deps s @ [node], ps_changed = True\<rparr>"
    from peel_step [OF inv src [unfolded s0] edg ne tr] have inv1: "resolver_inv out0 ?s1" .
    have mono: "ps_changed t" if "findCycles_pass ns t0 = Inr t" and "ps_changed t0" for ns t0 t
      using that
    proof (induction ns arbitrary: t0)
      case Nil
      then show ?case by simp
    next
      case (Cons n ns)
      then show ?case
        by (auto split: option.splits sum.splits if_splits)
    qed
    from Cons.IH [OF inv1 rest] obtain s' where
      r: "findCycles_pass nodes ?s1 = Inr s'" and inv': "resolver_inv out0 s'"
      by blast
    from mono [OF r] have "ps_changed s'" by simp
    with r inv' src edg True tr show ?thesis by simp
  next
    case False
    from Cons.IH [OF inv rest] obtain s' where
      r: "findCycles_pass nodes s = Inr s'" and inv': "resolver_inv out0 s'"
      and q: "\<not> ps_changed s' \<longrightarrow>
        s' = s \<and> (\<forall>node \<in> set nodes.
          \<not> (edges_of (ps_inGraph s) node = [] \<and> edges_of (ps_cycles s) node \<noteq> []))"
      by blast
    from False src edg r have "findCycles_pass (node # nodes) s = Inr s'" by auto
    moreover from False eI eC
    have "\<not> (edges_of (ps_inGraph s) node = [] \<and> edges_of (ps_cycles s) node \<noteq> [])" by auto
    ultimately show ?thesis using inv' q by auto
  qed
qed

lemma while_inv:
  "resolver_inv out0 s \<Longrightarrow>
   \<exists>s'. findCycles_while s = Inr s' \<and> resolver_inv out0 s' \<and>
     (\<forall>node \<in> set (map fst out0).
        \<not> (edges_of (ps_inGraph s') node = [] \<and> edges_of (ps_cycles s') node \<noteq> []))"
proof (induction s rule: findCycles_while.induct)
  case (1 s)
  let ?s0 = "s\<lparr>ps_changed := False\<rparr>"
  from "1.prems" have inv0: "resolver_inv out0 ?s0" by (simp add: resolver_inv_changed)
  from "1.prems" have keys: "map fst (ps_cycles s) = map fst out0"
    by (simp add: resolver_inv_def)
  from pass_inv [OF inv0, of "map fst (ps_cycles s)"] keys obtain s1 where
    p: "findCycles_pass (map fst (ps_cycles s)) ?s0 = Inr s1" and inv1: "resolver_inv out0 s1"
    and q: "\<not> ps_changed s1 \<longrightarrow>
        s1 = ?s0 \<and> (\<forall>node \<in> set (map fst out0).
          \<not> (edges_of (ps_inGraph ?s0) node = [] \<and> edges_of (ps_cycles ?s0) node \<noteq> []))"
    by auto
  show ?case
  proof (cases "ps_changed s1")
    case True
    from "1.IH" [OF p True inv1] obtain s' where
      "findCycles_while s1 = Inr s'" "resolver_inv out0 s'"
      "\<forall>node \<in> set (map fst out0).
        \<not> (edges_of (ps_inGraph s') node = [] \<and> edges_of (ps_cycles s') node \<noteq> [])"
      by blast
    moreover have "findCycles_while s = findCycles_while s1"
      using p True by (subst findCycles_while.simps) simp
    ultimately show ?thesis by auto
  next
    case False
    have "findCycles_while s = Inr s1"
      using p False by (subst findCycles_while.simps) simp
    moreover from q False have "\<forall>node \<in> set (map fst out0).
        \<not> (edges_of (ps_inGraph s1) node = [] \<and> edges_of (ps_cycles s1) node \<noteq> [])"
      by auto
    ultimately show ?thesis using inv1 by auto
  qed
qed

lemma no_cycle_left:
  assumes inv: "resolver_inv out0 s"
    and quiet: "\<forall>node \<in> set (map fst out0).
        \<not> (edges_of (ps_inGraph s) node = [] \<and> edges_of (ps_cycles s) node \<noteq> [])"
    and acyc: "acyclic {(u, v). v \<in> set (edges_of out0 u)}"
  shows "edges_of (ps_cycles s) u = []"
proof (rule ccontr)
  assume ne: "edges_of (ps_cycles s) u \<noteq> []"
  let ?C = "ps_cycles s" and ?I = "ps_inGraph s"
  let ?E = "{(u, v). v \<in> set (edges_of out0 u)}"
  let ?R = "{(w, v). v \<in> set (edges_of ?C w)}"
  let ?Q = "{u. edges_of ?C u \<noteq> []}"
  from inv have keysC: "map fst ?C = map fst out0"
    and targets: "\<forall>u. set (edges_of out0 u) \<subseteq> set (map fst out0)"
    and shape: "\<forall>u. edges_of ?C u = [] \<or> edges_of ?C u = edges_of out0 u"
    and cons: "\<forall>u v. count_list (edges_of ?C u) v = count_list (edges_of ?I v) u"
    by (simp_all add: resolver_inv_def)
  have key_of: "w \<in> set (map fst g)" if "edges_of g w \<noteq> []" for g w
    using that by (cases "map_of g w") (auto simp: edges_of_def dest: map_of_SomeD intro: rev_image_eqI)
  have "?E \<subseteq> set (map fst out0) \<times> set (map fst out0)"
  proof
    fix p assume "p \<in> ?E"
    then obtain a b where p: "p = (a, b)" and b: "b \<in> set (edges_of out0 a)" by auto
    from b have "edges_of out0 a \<noteq> []" by auto
    from key_of [OF this] b targets p show "p \<in> set (map fst out0) \<times> set (map fst out0)"
      by auto
  qed
  then have finE: "finite ?E" by (rule finite_subset) simp
  have sub: "?R \<subseteq> ?E"
  proof
    fix p assume "p \<in> ?R"
    then obtain a b where p: "p = (a, b)" and b: "b \<in> set (edges_of ?C a)" by auto
    then have "edges_of ?C a \<noteq> []" by auto
    with shape have "edges_of ?C a = edges_of out0 a" by metis
    with b p show "p \<in> ?E" by simp
  qed
  from finE sub have "finite ?R" by (rule rev_finite_subset)
  moreover from acyc sub have "acyclic ?R" by (rule acyclic_subset)
  ultimately have "wf ?R" by (rule finite_acyclic_wf)
  moreover from ne have "u \<in> ?Q" by simp
  ultimately obtain z where zQ: "z \<in> ?Q" and zmin: "\<And>y. (y, z) \<in> ?R \<Longrightarrow> y \<notin> ?Q"
    by (rule wfE_min) blast
  have "\<forall>y. count_list (edges_of ?I z) y = 0"
  proof
    fix y
    have "z \<notin> set (edges_of ?C y)"
    proof
      assume zy: "z \<in> set (edges_of ?C y)"
      then have "(y, z) \<in> ?R" by simp
      from zmin [OF this] zy show False by auto
    qed
    then have "count_list (edges_of ?C y) z = 0" by (simp add: count_list_0_iff)
    with cons show "count_list (edges_of ?I z) y = 0" by simp
  qed
  then have "edges_of ?I z = []" by (rule count_list_zero_Nil)
  moreover from zQ have "edges_of ?C z \<noteq> []" by simp
  moreover from key_of [OF this] keysC have "z \<in> set (map fst out0)" by simp
  ultimately show False using quiet by blast
qed

lemma update_absent: "k \<notin> set (map fst al) \<Longrightarrow> AList.update k v al = al @ [(k, v)]"
  by (induction al) auto

lemma copy_graph_distinct:
  "distinct (map fst (g1 @ g2)) \<Longrightarrow> copy_graph (map fst g2) (g1 @ g2) g1 = Inr (g1 @ g2)"
proof (induction g2 arbitrary: g1)
  case Nil
  then show ?case by simp
next
  case (Cons kv g2)
  obtain k v where kv: "kv = (k, v)" by (cases kv)
  from Cons.prems kv have k: "k \<notin> set (map fst g1)" by auto
  then have look: "map_of (g1 @ kv # g2) k = Some v"
    using kv by (simp add: map_add_def map_of_eq_None_iff [THEN iffD2] split: option.splits)
  from Cons.prems have "distinct (map fst ((g1 @ [kv]) @ g2))" by simp
  from Cons.IH [OF this] have "copy_graph (map fst g2) (g1 @ kv # g2) (g1 @ [kv]) = Inr (g1 @ kv # g2)"
    by simp
  with look kv update_absent [OF k] show ?case by simp
qed

lemma empty_graphs_pair:
  "map fst i = map fst out \<Longrightarrow> distinct (map fst out) \<Longrightarrow>
   (\<forall>u. edges_of i u = [] \<and> edges_of out u = []) \<Longrightarrow>
   empty_graphs ss (i, out) = (i', out') \<Longrightarrow>
   map fst i' = map fst out' \<and> distinct (map fst out') \<and>
   (\<forall>u. edges_of i' u = [] \<and> edges_of out' u = [])"
proof (induction ss arbitrary: i out)
  case Nil
  then show ?case by simp
next
  case (Cons stock ss)
  have "map fst (AList.update (name stock) [] i) = map fst (AList.update (name stock) [] out)"
    using Cons.prems(1) by (simp add: update_keys)
  moreover have "distinct (map fst (AList.update (name stock) [] out))"
    using Cons.prems(2) by (rule distinct_update)
  moreover have "\<forall>u. edges_of (AList.update (name stock) [] i) u = [] \<and>
      edges_of (AList.update (name stock) [] out) u = []"
    using Cons.prems(3) by (simp add: edges_of_update)
  moreover from Cons.prems(4)
  have "empty_graphs ss (AList.update (name stock) [] i, AList.update (name stock) [] out) = (i', out')"
    by simp
  ultimately show ?case by (rule Cons.IH)
qed

lemma add_refs_pair:
  "graph_pair i out \<Longrightarrow> add_refs nm refs (i, out) = Inr (i', out') \<Longrightarrow> graph_pair i' out'"
proof (induction refs arbitrary: i out)
  case Nil
  then show ?case by simp
next
  case (Cons ref refs)
  from Cons.prems(2) obtain outs inw where o: "map_of out nm = Some outs"
    and iw: "map_of i ref = Some inw"
    and rec: "add_refs nm refs (AList.update ref (inw @ [nm]) i, AList.update nm (outs @ [ref]) out)
               = Inr (i', out')"
    by (auto split: option.splits)
  from o have eo: "edges_of out nm = outs" by (simp add: edges_of_def)
  from iw have ei: "edges_of i ref = inw" by (simp add: edges_of_def)
  from Cons.prems(1) have keys: "map fst i = map fst out" and d: "distinct (map fst out)"
    and t: "\<forall>u. set (edges_of out u) \<subseteq> set (map fst out)"
    and c: "\<forall>u v. count_list (edges_of out u) v = count_list (edges_of i v) u"
    by (simp_all add: graph_pair_def)
  from iw have "ref \<in> set (map fst i)" by (auto dest: map_of_SomeD intro: rev_image_eqI)
  with keys have refk: "ref \<in> set (map fst out)" by simp
  have "graph_pair (AList.update ref (inw @ [nm]) i) (AList.update nm (outs @ [ref]) out)"
    unfolding graph_pair_def
  proof (intro conjI allI)
    show "map fst (AList.update ref (inw @ [nm]) i) = map fst (AList.update nm (outs @ [ref]) out)"
      using keys keys_update_present [OF iw] keys_update_present [OF o] by simp
    show "distinct (map fst (AList.update nm (outs @ [ref]) out))"
      using d by (rule distinct_update)
    fix u
    show "set (edges_of (AList.update nm (outs @ [ref]) out) u)
            \<subseteq> set (map fst (AList.update nm (outs @ [ref]) out))"
      using t eo refk keys_update_present [OF o] by (auto simp: edges_of_update)
    fix v
    show "count_list (edges_of (AList.update nm (outs @ [ref]) out) u) v =
          count_list (edges_of (AList.update ref (inw @ [nm]) i) v) u"
      using c eo ei by (auto simp: edges_of_update)
  qed
  from Cons.IH [OF this rec] show ?case .
qed

lemma fill_graphs_pair:
  "graph_pair i out \<Longrightarrow> fill_graphs ss (i, out) = Inr (i', out') \<Longrightarrow> graph_pair i' out'"
proof (induction ss arbitrary: i out)
  case Nil
  then show ?case by simp
next
  case (Cons stock ss)
  from Cons.prems(2) obtain i1 out1 where
    a: "add_refs (name stock) (references (initial stock)) (i, out) = Inr (i1, out1)"
    and r: "fill_graphs ss (i1, out1) = Inr (i', out')"
    by (auto split: sum.splits)
  from add_refs_pair [OF Cons.prems(1) a] have "graph_pair i1 out1" .
  from Cons.IH [OF this r] show ?case .
qed

lemma build_graphs_pair:
  assumes "build_graphs ss = Inr (inG, outG)"
  shows "graph_pair inG outG"
proof -
  obtain i0 out0 where e: "empty_graphs ss ([], []) = (i0, out0)"
    by (cases "empty_graphs ss ([], [])")
  have "map fst i0 = map fst out0 \<and> distinct (map fst out0) \<and>
      (\<forall>u. edges_of i0 u = [] \<and> edges_of out0 u = [])"
    by (rule empty_graphs_pair [OF _ _ _ e]) (simp_all add: edges_of_def)
  then have "graph_pair i0 out0" by (simp add: graph_pair_def)
  moreover from assms e have "fill_graphs ss (i0, out0) = Inr (inG, outG)"
    by (simp add: build_graphs_def)
  ultimately show ?thesis by (rule fill_graphs_pair)
qed

lemma findCycles_final:
  assumes gp: "graph_pair inG outG"
  shows "\<exists>s. findCycles inG outG =
           Inr (\<lparr>hasCycle = list_ex (\<lambda>kv. length (snd kv) > 0) (ps_cycles s),
                 cycles = ps_cycles s, initialPath = rev (ps_deps s)\<rparr>, ps_inGraph s, outG) \<and>
         resolver_inv outG s \<and>
         (\<forall>node \<in> set (map fst outG).
            \<not> (edges_of (ps_inGraph s) node = [] \<and> edges_of (ps_cycles s) node \<noteq> []))"
proof -
  from gp have d: "distinct (map fst outG)" by (simp add: graph_pair_def)
  from copy_graph_distinct [of "[]" outG] d
  have cp: "copy_graph (map fst outG) outG [] = Inr outG" by simp
  let ?s0 = "\<lparr>ps_inGraph = inG, ps_cycles = outG, ps_deps = [], ps_changed = True\<rparr>"
  from gp have "resolver_inv outG ?s0"
    by (simp add: graph_pair_def resolver_inv_def)
  from while_inv [OF this] obtain s where
    w: "findCycles_while ?s0 = Inr s" and inv: "resolver_inv outG s"
    and q: "\<forall>node \<in> set (map fst outG).
            \<not> (edges_of (ps_inGraph s) node = [] \<and> edges_of (ps_cycles s) node \<noteq> [])"
    by blast
  from cp w have "findCycles inG outG =
           Inr (\<lparr>hasCycle = list_ex (\<lambda>kv. length (snd kv) > 0) (ps_cycles s),
                 cycles = ps_cycles s, initialPath = rev (ps_deps s)\<rparr>, ps_inGraph s, outG)"
    by (simp add: findCycles_def)
  with inv q show ?thesis by blast
qed

lemma findCycles_acyclic:
  assumes bg: "build_graphs ss = Inr (inG, outG)"
    and acyc: "acyclic {(u, v). v \<in> set (edges_of outG u)}"
  shows "\<exists>result inG'. findCycles inG outG = Inr (result, inG', outG) \<and> \<not> hasCycle result \<and>
     distinct (initialPath result) \<and>
     set (initialPath result) = {u. edges_of outG u \<noteq> []} \<and>
     (\<forall>i < length (initialPath result). \<forall>j < length (initialPath result).
        initialPath result ! j \<in> set (edges_of outG (initialPath result ! i)) \<longrightarrow> j < i)"
proof -
  from build_graphs_pair [OF bg] have gp: "graph_pair inG outG" .
  from findCycles_final [OF gp] obtain s where
    fc: "findCycles inG outG =
           Inr (\<lparr>hasCycle = list_ex (\<lambda>kv. length (snd kv) > 0) (ps_cycles s),
                 cycles = ps_cycles s, initialPath = rev (ps_deps s)\<rparr>, ps_inGraph s, outG)"
    and inv: "resolver_inv outG s"
    and q: "\<forall>node \<in> set (map fst outG).
            \<not> (edges_of (ps_inGraph s) node = [] \<and> edges_of (ps_cycles s) node \<noteq> [])"
    by blast
  let ?D = "ps_deps s"
  from inv have keysC: "map fst (ps_cycles s) = map fst outG"
    and dist: "distinct ?D"
    and deps: "set ?D = {u. edges_of outG u \<noteq> [] \<and> edges_of (ps_cycles s) u = []}"
    and ord: "\<forall>i < length ?D. \<forall>w. ?D ! i \<in> set (edges_of outG w) \<longrightarrow> w \<in> set (take i ?D)"
    by (simp_all add: resolver_inv_def)
  have empty: "edges_of (ps_cycles s) u = []" for u
    by (rule no_cycle_left [OF inv q acyc])
  have "distinct (map fst (ps_cycles s))"
    using gp keysC by (simp add: graph_pair_def)
  then have "snd kv = []" if "kv \<in> set (ps_cycles s)" for kv
  proof -
    assume d: "distinct (map fst (ps_cycles s))"
    obtain k es where kv: "kv = (k, es)" by (cases kv)
    with that d have "map_of (ps_cycles s) k = Some es" by (simp add: map_of_is_SomeI)
    then have "edges_of (ps_cycles s) k = es" by (simp add: edges_of_def)
    with empty [of k] kv show ?thesis by simp
  qed
  then have "\<forall>kv \<in> set (ps_cycles s). snd kv = []" by blast
  then have nc: "\<not> list_ex (\<lambda>kv. length (snd kv) > 0) (ps_cycles s)"
    by (simp add: list_ex_iff)
  have set_eq: "set (rev ?D) = {u. edges_of outG u \<noteq> []}"
    using deps empty by simp
  have order: "j < i"
    if i: "i < length (rev ?D)" and j: "j < length (rev ?D)"
      and e: "rev ?D ! j \<in> set (edges_of outG (rev ?D ! i))" for i j
  proof -
    let ?n = "length ?D"
    let ?a = "?n - Suc i" and ?b = "?n - Suc j"
    from i j have a: "?a < ?n" and b: "?b < ?n" by simp_all
    from i have ri: "rev ?D ! i = ?D ! ?a" by (simp add: rev_nth)
    from j have rj: "rev ?D ! j = ?D ! ?b" by (simp add: rev_nth)
    from e ri rj have "?D ! ?b \<in> set (edges_of outG (?D ! ?a))" by simp
    with ord b have "?D ! ?a \<in> set (take ?b ?D)" by blast
    then obtain k where k: "k < ?b" "k < ?n" "?D ! k = ?D ! ?a"
      using b by (auto simp: in_set_conv_nth)
    with dist a have "k = ?a" by (simp add: nth_eq_iff_index_eq)
    with k(1) have "?a < ?b" by simp
    with i j show "j < i" by simp
  qed
  show ?thesis
    using fc nc dist set_eq order by (intro exI [of _ "\<lparr>hasCycle = list_ex (\<lambda>kv. length (snd kv) > 0) (ps_cycles s),
                 cycles = ps_cycles s, initialPath = rev (ps_deps s)\<rparr>"] exI [of _ "ps_inGraph s"]) simp
qed

lemma findCycles_self_loop:
  assumes bg: "build_graphs ss = Inr (inG, outG)"
    and loop: "u \<in> set (edges_of outG u)"
  shows "\<exists>result inG'. findCycles inG outG = Inr (result, inG', outG) \<and> hasCycle result"
proof -
  from build_graphs_pair [OF bg] have gp: "graph_pair inG outG" .
  from findCycles_final [OF gp] obtain s where
    fc: "findCycles inG outG =
           Inr (\<lparr>hasCycle = list_ex (\<lambda>kv. length (snd kv) > 0) (ps_cycles s),
                 cycles = ps_cycles s, initialPath = rev (ps_deps s)\<rparr>, ps_inGraph s, outG)"
    and inv: "resolver_inv outG s"
    by blast
  let ?D = "ps_deps s"
  from inv have dist: "distinct ?D"
    and deps: "set ?D = {u. edges_of outG u \<noteq> [] \<and> edges_of (ps_cycles s) u = []}"
    and ord: "\<forall>i < length ?D. \<forall>w. ?D ! i \<in> set (edges_of outG w) \<longrightarrow> w \<in> set (take i ?D)"
    by (simp_all add: resolver_inv_def)
  have "u \<notin> set ?D"
  proof
    assume "u \<in> set ?D"
    then obtain i where i: "i < length ?D" "?D ! i = u" by (auto simp: in_set_conv_nth)
    with ord loop have "u \<in> set (take i ?D)" by blast
    then obtain k where k: "k < i" "?D ! k = u"
      using i(1) by (auto simp: in_set_conv_nth)
    from k(1) i(1) have "k < length ?D" by simp
    with dist i k have "k = i" by (metis nth_eq_iff_index_eq)
    with k(1) show False by simp
  qed
  moreover from loop have "edges_of outG u \<noteq> []" by auto
  ultimately have ne: "edges_of (ps_cycles s) u \<noteq> []" using deps by simp
  then obtain es where "map_of (ps_cycles s) u = Some es" "es \<noteq> []"
    by (auto simp: edges_of_def split: option.splits)
  then have "(u, es) \<in> set (ps_cycles s)" "es \<noteq> []" by (auto dest: map_of_SomeD)
  then have "list_ex (\<lambda>kv. length (snd kv) > 0) (ps_cycles s)"
    unfolding list_ex_iff by (intro bexI [of _ "(u, es)"]) simp_all
  with fc show ?thesis by simp
qed

lemma shrunk_refl: "shrunk g g"
  by (simp add: shrunk_def)

lemma shrunk_trans:
  assumes "shrunk g3 g2" and "shrunk g2 g1"
  shows "shrunk g3 g1"
  unfolding shrunk_def
proof (intro conjI allI)
  show "map fst g3 = map fst g1" using assms by (simp add: shrunk_def)
  fix v w
  have "count_list (edges_of g3 v) w \<le> count_list (edges_of g2 v) w"
    using assms(1) by (simp add: shrunk_def)
  also have "\<dots> \<le> count_list (edges_of g1 v) w"
    using assms(2) by (simp add: shrunk_def)
  finally show "count_list (edges_of g3 v) w \<le> count_list (edges_of g1 v) w" .
qed

lemma trim_edges_shrunk: "trim_edges node es g = Inr g' \<Longrightarrow> shrunk g' g"
  using trim_edges_effect [of node es g g'] by (simp add: shrunk_def)

lemma pass_shrunk:
  "findCycles_pass nodes s = Inr s' \<Longrightarrow> shrunk (ps_inGraph s') (ps_inGraph s)"
proof (induction nodes arbitrary: s)
  case Nil
  then show ?case by (simp add: shrunk_refl)
next
  case (Cons node nodes)
  from Cons.prems obtain sources edges
    where src: "map_of (ps_inGraph s) node = Some sources"
      and edg: "map_of (ps_cycles s) node = Some edges"
    by (auto split: option.splits)
  show ?case
  proof (cases "length sources = 0 \<and> length edges > 0")
    case True
    with Cons.prems src edg obtain inGraph' where
      tr: "trim_edges node edges (ps_inGraph s) = Inr inGraph'"
      and rec: "findCycles_pass nodes
              \<lparr>ps_inGraph = inGraph', ps_cycles = AList.update node [] (ps_cycles s),
               ps_deps = ps_deps s @ [node], ps_changed = True\<rparr> = Inr s'"
      by (auto split: sum.splits)
    from Cons.IH [OF rec] have "shrunk (ps_inGraph s') inGraph'" by simp
    with trim_edges_shrunk [OF tr] show ?thesis by (rule shrunk_trans [rotated])
  next
    case False
    with Cons.prems src edg have "findCycles_pass nodes s = Inr s'"
      by (auto split: sum.splits)
    from Cons.IH [OF this] show ?thesis .
  qed
qed

lemma while_shrunk:
  "findCycles_while s = Inr s' \<Longrightarrow> shrunk (ps_inGraph s') (ps_inGraph s)"
proof (induction s rule: findCycles_while.induct)
  case (1 s)
  from "1.prems" obtain s1 where
    p: "findCycles_pass (map fst (ps_cycles s)) (s\<lparr>ps_changed := False\<rparr>) = Inr s1"
    by (subst (asm) findCycles_while.simps) (auto split: sum.splits)
  from pass_shrunk [OF p] have sh: "shrunk (ps_inGraph s1) (ps_inGraph s)" by simp
  show ?case
  proof (cases "ps_changed s1")
    case True
    with "1.prems" p have "findCycles_while s1 = Inr s'"
      by (subst (asm) findCycles_while.simps) simp
    from "1.IH" [OF p True this] sh show ?thesis by (rule shrunk_trans)
  next
    case False
    with "1.prems" p have "s' = s1"
      by (subst (asm) findCycles_while.simps) simp
    with sh show ?thesis by simp
  qed
qed

lemma findCycles_frame:
  assumes "findCycles inGraph outGraph = Inr (result, inGraph', outGraph')"
  shows "outGraph' = outGraph \<and> shrunk inGraph' inGraph"
proof -
  from assms obtain cyc s where
    "findCycles_while \<lparr>ps_inGraph = inGraph, ps_cycles = cyc, ps_deps = [], ps_changed = True\<rparr>
       = Inr s"
    and "inGraph' = ps_inGraph s" and "outGraph' = outGraph"
    by (auto simp: findCycles_def split: sum.splits)
  with while_shrunk show ?thesis by fastforce
qed

lemma acyclic_ab: "acyclic {(u, v). v \<in> set (edges_of [(''a'', [''b'']), (''b'', [])] u)}"
  by (rule acyclicI_order [where f = rank_abc])
     (auto simp: edges_of_def rank_abc_def split: if_splits)

lemma acyclic_chain:
  "acyclic {(u, v). v \<in> set (edges_of [(''a'', [''b'']), (''b'', [''c'']), (''c'', [])] u)}"
  by (rule acyclicI_order [where f = rank_abc])
     (auto simp: edges_of_def rank_abc_def split: if_splits)

text \<open>
  Claim C6, as stated, fails. For the stocks \<open>a(b)\<close> and \<open>b\<close> the graph is acyclic and
  \<open>findCycles\<close> reports no cycle, and the order it returns is \<open>[a]\<close>: the target \<open>b\<close> of
  the outward edge of \<open>a\<close> does not precede \<open>a\<close> in the order, it is not in the order.
\<close>

theorem initial_order_omits_targets:
  "build_graphs ab_stocks = Inr ([(''a'', []), (''b'', [''a''])], [(''a'', [''b'']), (''b'', [])]) \<and>
   acyclic {(u, v). v \<in> set (edges_of [(''a'', [''b'']), (''b'', [])] u)} \<and>
   findCycles [(''a'', []), (''b'', [''a''])] [(''a'', [''b'']), (''b'', [])] =
     Inr (\<lparr>hasCycle = False, cycles = [(''a'', []), (''b'', [])], initialPath = [''a'']\<rparr>,
          [(''a'', []), (''b'', [])], [(''a'', [''b'']), (''b'', [])]) \<and>
   ''b'' \<in> set (edges_of [(''a'', [''b'']), (''b'', [])] ''a'') \<and>
   ''b'' \<notin> set [''a'']"
proof -
  have "build_graphs ab_stocks =
      Inr ([(''a'', []), (''b'', [''a''])], [(''a'', [''b'']), (''b'', [])])"
    by code_simp
  moreover have "findCycles [(''a'', []), (''b'', [''a''])] [(''a'', [''b'']), (''b'', [])] =
     Inr (\<lparr>hasCycle = False, cycles = [(''a'', []), (''b'', [])], initialPath = [''a'']\<rparr>,
          [(''a'', []), (''b'', [])], [(''a'', [''b'']), (''b'', [])])"
    by code_simp
  moreover have "''b'' \<in> set (edges_of [(''a'', [''b'']), (''b'', [])] ''a'')"
    by (simp add: edges_of_def)
  ultimately show ?thesis using acyclic_ab by simp
qed

text \<open>
  Claim C6, amended. For the two graphs that \<open>validateInitialCycles\<close> builds from the
  initial-value references of the stocks: if the graph is acyclic, \<open>findCycles\<close> returns,
  reports no cycle, and the order it returns lists, once each, exactly the stocks that
  have outward edges, and an outward-edge target of a stock of the order that is itself
  in the order stands before that stock (a target that is not in the order has no
  references of its own). A node with an edge to itself is always reported as a cycle.
\<close>

theorem findCycles_initial_order:
  "(build_graphs ss = Inr (inG, outG) \<longrightarrow> acyclic {(u, v). v \<in> set (edges_of outG u)} \<longrightarrow>
      (\<exists>result inG'. findCycles inG outG = Inr (result, inG', outG) \<and> \<not> hasCycle result \<and>
         distinct (initialPath result) \<and>
         set (initialPath result) = {u. edges_of outG u \<noteq> []} \<and>
         (\<forall>i < length (initialPath result). \<forall>j < length (initialPath result).
            initialPath result ! j \<in> set (edges_of outG (initialPath result ! i)) \<longrightarrow> j < i))) \<and>
   (build_graphs ss2 = Inr (inG2, outG2) \<longrightarrow> u \<in> set (edges_of outG2 u) \<longrightarrow>
      (\<exists>result inG'. findCycles inG2 outG2 = Inr (result, inG', outG2) \<and> hasCycle result))"
  using findCycles_acyclic [of ss inG outG] findCycles_self_loop [of ss2 inG2 outG2 u]
  by blast

theorem findCycles_initial_order_witness:
  "build_graphs chain_stocks =
     Inr ([(''a'', []), (''b'', [''a'']), (''c'', [''b''])],
          [(''a'', [''b'']), (''b'', [''c'']), (''c'', [])]) \<and>
   acyclic {(u, v). v \<in> set (edges_of [(''a'', [''b'']), (''b'', [''c'']), (''c'', [])] u)} \<and>
   (\<exists>result inG'.
      findCycles [(''a'', []), (''b'', [''a'']), (''c'', [''b''])]
        [(''a'', [''b'']), (''b'', [''c'']), (''c'', [])] =
        Inr (result, inG', [(''a'', [''b'']), (''b'', [''c'']), (''c'', [])]) \<and>
      \<not> hasCycle result \<and> distinct (initialPath result) \<and>
      set (initialPath result) =
        {u. edges_of [(''a'', [''b'']), (''b'', [''c'']), (''c'', [])] u \<noteq> []}) \<and>
   build_graphs loop_stocks = Inr ([(''a'', [''a''])], [(''a'', [''a''])]) \<and>
   ''a'' \<in> set (edges_of [(''a'', [''a''])] ''a'') \<and>
   (\<exists>result inG'. findCycles [(''a'', [''a''])] [(''a'', [''a''])] =
      Inr (result, inG', [(''a'', [''a''])]) \<and> hasCycle result)"
proof -
  have b1: "build_graphs chain_stocks =
     Inr ([(''a'', []), (''b'', [''a'']), (''c'', [''b''])],
          [(''a'', [''b'']), (''b'', [''c'']), (''c'', [])])"
    by code_simp
  have b2: "build_graphs loop_stocks = Inr ([(''a'', [''a''])], [(''a'', [''a''])])"
    by code_simp
  have l: "''a'' \<in> set (edges_of [(''a'', [''a''])] ''a'')"
    by (simp add: edges_of_def)
  from findCycles_initial_order
    [of chain_stocks "[(''a'', []), (''b'', [''a'']), (''c'', [''b''])]"
        "[(''a'', [''b'']), (''b'', [''c'']), (''c'', [])]"
        loop_stocks "[(''a'', [''a''])]" "[(''a'', [''a''])]" "''a''"]
    b1 b2 l acyclic_chain
  show ?thesis by blast
qed

text \<open>
  Claim C10. \<open>findCycles\<close> changes the inward graph of its caller and leaves the outward
  graph as it was: after every call that returns, the outward graph is the argument, and
  the inward graph has its keys and, for every node, at most the entries it had. For the
  acyclic linear graph of the tests the inward graph has lost every entry.
\<close>

theorem findCycles_mutates_inGraph:
  "(findCycles inGraph outGraph = Inr (result, inGraph', outGraph') \<longrightarrow>
      outGraph' = outGraph \<and> map fst inGraph' = map fst inGraph \<and>
      (\<forall>v w. count_list (edges_of inGraph' v) w \<le> count_list (edges_of inGraph v) w)) \<and>
   acyclic {(u, v). v \<in> set (edges_of linear_outGraph u)} \<and>
   findCycles linear_inGraph linear_outGraph =
     Inr (\<lparr>hasCycle = False, cycles = [(''a'', []), (''b'', []), (''c'', [])],
           initialPath = [''b'', ''a'']\<rparr>,
          [(''a'', []), (''b'', []), (''c'', [])], linear_outGraph) \<and>
   [(''a'', []), (''b'', []), (''c'', [])] \<noteq> linear_inGraph"
proof -
  have "findCycles linear_inGraph linear_outGraph =
     Inr (\<lparr>hasCycle = False, cycles = [(''a'', []), (''b'', []), (''c'', [])],
           initialPath = [''b'', ''a'']\<rparr>,
          [(''a'', []), (''b'', []), (''c'', [])], linear_outGraph)"
    by code_simp
  moreover have "[(''a'', []), (''b'', []), (''c'', [])] \<noteq> linear_inGraph"
    by (simp add: linear_inGraph_def)
  moreover have "acyclic {(u, v). v \<in> set (edges_of linear_outGraph u)}"
    unfolding linear_outGraph_def by (rule acyclic_chain)
  ultimately show ?thesis
    using findCycles_frame [of inGraph outGraph result inGraph' outGraph']
    by (simp add: shrunk_def)
qed

theorem findCycles_mutates_inGraph_witness:
  "findCycles linear_inGraph linear_outGraph =
     Inr (\<lparr>hasCycle = False, cycles = [(''a'', []), (''b'', []), (''c'', [])],
           initialPath = [''b'', ''a'']\<rparr>,
          [(''a'', []), (''b'', []), (''c'', [])], linear_outGraph) \<and>
   map fst [(''a'', [] :: string list), (''b'', []), (''c'', [])] = map fst linear_inGraph \<and>
   count_list (edges_of [(''a'', []), (''b'', []), (''c'', [])] ''b'') ''a'' = 0 \<and>
   count_list (edges_of linear_inGraph ''b'') ''a'' = 1"
proof -
  have c: "count_list (edges_of [(''a'', []), (''b'', []), (''c'', [])] ''b'') ''a'' = 0 \<and>
      count_list (edges_of linear_inGraph ''b'') ''a'' = 1"
    by (simp add: edges_of_def linear_inGraph_def)
  from findCycles_mutates_inGraph
    [of linear_inGraph linear_outGraph
        "\<lparr>hasCycle = False, cycles = [(''a'', []), (''b'', []), (''c'', [])],
           initialPath = [''b'', ''a'']\<rparr>"
        "[(''a'', []), (''b'', []), (''c'', [])]" linear_outGraph] c
  show ?thesis by simp
qed

section \<open>Properties of the parser\<close>













text \<open>
  The models of the examples above are the models that \<open>parse\<close> builds from their texts.
\<close>

lemma parse_leak_double: "parse ''a(10) > b @ Leak(2)'' = Inr leak_double_model"
  by code_simp

lemma parse_triple_fan_in:
  "parse (''a(10) > d(0, 5) @ 5'' @ [CHR 0x0A] @ ''b(10) > d @ 5'' @ [CHR 0x0A] @
          ''c(10) > d @ 5'') = Inr triple_fan_in_model"
  by code_simp

lemma parse_negative_initial: "parse ''a(0 - 5)'' = Inr negative_initial_model"
  by code_simp

lemma parse_above_maximum: "parse ''c(5, 3)'' = Inr above_maximum_model"
  by code_simp

lemma parse_capped: "parse ''a(10) > b(0, 5) @ 3'' = Inr capped_model"
  by code_simp

lemma parse_ab_stocks:
  "(case parse (''a(b)'' @ [CHR 0x0A] @ ''b'') of Inl e \<Rightarrow> None | Inr m \<Rightarrow> Some (stocks m)) =
     Some ab_stocks"
  by code_simp

lemma parse_empty_group:
  "(case parse ''a(1 + ())'' of Inl e \<Rightarrow> None | Inr m \<Rightarrow> Some (stocks m, flows m)) =
     Some (stocks empty_group_model, flows empty_group_model)"
  by code_simp

end
